theory Spec2Isabelle
  imports Complex_Main
begin

section \<open>The training worker of \<^verbatim>\<open>mist/runtime/run.py\<close>\<close>

text \<open>
  \<^verbatim>\<open>Trainer.train(rank, world_size)\<close> is the body of one worker process.  It is embedded
  here as a state transformer over the worker's local variables.  Everything the worker
  does to the outside (collective operations, loaders, files, the console, the debugger)
  is recorded, in order, as an event of its trace.  Python floats are read as real
  numbers: rounding is outside the model.
\<close>

subsection \<open>Exceptions\<close>

datatype error =
    ValueError string
  | InsufficientValidationSetError int int
  | UnboundLocalError string
  | ZeroDivisionError
  | IndexError
  | TypeError

subsection \<open>The composite loss: \<^verbatim>\<open>compute_loss\<close> (lines 466-594)\<close>

text \<open>
  The fields of \<^verbatim>\<open>self.mist_arguments\<close> that \<^verbatim>\<open>train\<close> branches on or computes with.
  Arguments that are only handed on to external calls (\<^verbatim>\<open>oversampling\<close>,
  \<^verbatim>\<open>num_workers\<close>, \<^verbatim>\<open>clip_norm_max\<close>, \<^verbatim>\<open>val_sw_overlap\<close>, the directories) are left out.
  \<^verbatim>\<open>steps_per_epoch\<close> is the one attribute \<^verbatim>\<open>train\<close> assigns (line 344); its current
  value lives in the worker's frame below, and the record holds the value given by the
  user.
\<close>

record arguments =
  folds :: "int list"
  use_dtms :: bool
  val_percent :: real
  seed_val :: int
  batch_size :: int
  steps_per_epoch :: "int option"
  loss :: string
  model :: string
  epochs :: int
  amp :: bool
  clip_norm :: bool
  deep_supervision :: bool
  vae_reg :: bool
  vae_penalty :: real
  l2_reg :: bool
  l2_penalty :: real
  l1_reg :: bool
  l1_penalty :: real

text \<open>
  What one forward pass and the loss functions give for a batch: the value of
  \<^verbatim>\<open>loss_fn\<close> on the primary prediction, its values on the entries of
  \<^verbatim>\<open>output["deep_supervision"]\<close> in order, the value of the VAE loss, and
  \<^verbatim>\<open>torch.norm(param, p)\<close> for every parameter of the model.  The three calling
  conventions of \<^verbatim>\<open>loss_fn\<close> (with \<^verbatim>\<open>dtm\<close> and \<^verbatim>\<open>alpha\<close>, with \<^verbatim>\<open>alpha\<close>, plain) differ
  in the arguments handed to the external loss function only, so they do not show in
  the arithmetic.
\<close>

record forward_out =
  primary_loss :: real
  head_losses :: "real list"
  vae_loss :: real
  l2_norms :: "real list"
  l1_norms :: "real list"

text \<open>
  \<^verbatim>\<open>for k, p in enumerate(output["deep_supervision"]): loss += 0.5 ** (k + 1) * loss_fn(...)\<close>
\<close>

fun deep_supervision_loop :: "nat \<Rightarrow> real list \<Rightarrow> real \<Rightarrow> real" where
  "deep_supervision_loop k [] acc = acc"
| "deep_supervision_loop k (l # ls) acc =
     deep_supervision_loop (Suc k) ls (acc + 0.5 ^ (k + 1) * l)"

text \<open>\<^verbatim>\<open>c_norm = 1 / (2 - 2 ** -(len(output["deep_supervision"]) + 1))\<close>\<close>

definition c_norm :: "nat \<Rightarrow> real" where
  "c_norm n = 1 / (2 - 2 powi (- (int n + 1)))"

text \<open>Lines 476-541: the loss after the deep-supervision block.\<close>

definition supervised_loss :: "arguments \<Rightarrow> forward_out \<Rightarrow> real" where
  "supervised_loss a out =
     (if deep_supervision a
      then deep_supervision_loop 0 (head_losses out) (primary_loss out)
             * c_norm (length (head_losses out))
      else primary_loss out)"

text \<open>
  \<^verbatim>\<open>norm = 0.0; for param in model.parameters(): norm += torch.norm(param, p)\<close>
\<close>

definition norm_of_model_parameters :: "real list \<Rightarrow> real" where
  "norm_of_model_parameters ns = foldl (+) 0 ns"

definition compute_loss :: "arguments \<Rightarrow> forward_out \<Rightarrow> real" where
  "compute_loss a out =
     (let l = supervised_loss a out;
          l = (if vae_reg a then l + vae_penalty a * vae_loss out else l);
          l = (if l2_reg a
               then l + l2_penalty a * norm_of_model_parameters (l2_norms out) else l);
          l = (if l1_reg a
               then l + l1_penalty a * norm_of_model_parameters (l1_norms out) else l)
      in l)"

subsection \<open>External collaborators and the trace\<close>

text \<open>
  A batch as \<^verbatim>\<open>train_loader.next()[0]\<close> gives it: the first two dimensions (samples,
  channels) of \<^verbatim>\<open>data["image"]\<close> and of \<^verbatim>\<open>data["label"]\<close>; the code reads nothing else
  of a batch itself.  A loader built with distance maps also carries \<^verbatim>\<open>data["dtm"]\<close>.
\<close>

record batch =
  image_shape :: "nat \<times> nat"
  label_shape :: "nat \<times> nat"

text \<open>
  The events of a worker, in the order of the calls that cause them.
  \<^verbatim>\<open>WriteImagePatch pc i c\<close> is
  \<^verbatim>\<open>ants.image_write(ants.from_numpy(myimg[i, c, :, :, :]), f'myimage{pc:02}_0{c}.nii.gz')\<close>
  and \<^verbatim>\<open>WriteLabelPatch pc i\<close> the same for \<^verbatim>\<open>mylbl[i, 0, :, :, :]\<close> and
  \<^verbatim>\<open>f'mylabel{pc:02}_0.nii.gz'\<close>.  \<^verbatim>\<open>SetTrace\<close> is \<^verbatim>\<open>ipdb.set_trace()\<close>, \<^verbatim>\<open>Reduce v\<close> is
  \<^verbatim>\<open>dist.reduce(t, dst=0)\<close> on a tensor of local value \<^verbatim>\<open>v\<close>, \<^verbatim>\<open>TorchSave f\<close> is
  \<^verbatim>\<open>torch.save(model.state_dict(), best_model_name)\<close> for fold \<^verbatim>\<open>f\<close>.
\<close>

datatype event =
    InitProcessGroup int int
  | CudaSetDevice int
  | ConsolePrint string
  | GetTrainingDataset "string list" "string list" "string list option" int
  | GetValidationDataset "string list" "string list"
  | GetLoss string
  | GetModel
  | ConfigurePretrainedModel
  | ConvertSyncBatchnorm
  | ModelTo int
  | WrapDDP bool
  | GetOptimizer
  | GetLrSchedule
  | NewGradScaler
  | NewSummaryWriter int
  | ModelTrain
  | ModelEval
  | TrainLoaderNext
  | ValidationLoaderNext
  | PrintShape "nat \<times> nat"
  | WriteImagePatch int nat nat
  | WriteLabelPatch int nat
  | SetTrace
  | AlphaScheduleCall int
  | ZeroGrad
  | Forward
  | Backward
  | ScaledBackward
  | Unscale
  | ClipGradNorm
  | OptimizerStep
  | ScalerStep
  | ScalerUpdate
  | LrSchedulerStep
  | Reduce real
  | Barrier
  | ProgressBarUpdate real
  | SlidingWindowInference
  | TorchSave int
  | TrainLoaderReset
  | ValidationLoaderReset
  | AddScalars real real int
  | WriterFlush
  | WriterClose
  | DestroyProcessGroup

text \<open>
  What the worker reads from outside.  The data frame holds one \<^verbatim>\<open>(id, fold)\<close> row per
  patient.  \<^verbatim>\<open>utils.get_numpy_file_paths_list\<close>, \<^verbatim>\<open>utils.AlphaSchedule\<close>, the loaders, the
  network, the loss functions and the process group are not part of the file: each is a
  parameter.  A call whose result can depend on what happened before takes the trace so
  far as its argument.  The value of \<^verbatim>\<open>alpha\<close> only travels from the schedule to the loss
  function, both external; the call of the schedule is an event.  \<^verbatim>\<open>train_test_split w n test_size random_state\<close> stands for
  scikit-learn's function of that name on arrays of \<^verbatim>\<open>n\<close> samples: it gives the
  training indices and the test indices, which scikit-learn applies to every array it is
  given.
\<close>

record world =
  training_paths_dataframe :: "(string \<times> int) list"
  get_numpy_file_paths_list :: "string \<Rightarrow> string list \<Rightarrow> string list"
  train_test_split :: "nat \<Rightarrow> real \<Rightarrow> int \<Rightarrow> nat list \<times> nat list"
  train_loader_next :: "event list \<Rightarrow> batch"
  validation_loader_next :: "event list \<Rightarrow> batch"
  model_forward :: "event list \<Rightarrow> forward_out"
  val_step_loss :: "event list \<Rightarrow> real"
  dist_reduce :: "event list \<Rightarrow> real \<Rightarrow> real"

subsection \<open>The worker's frame\<close>

text \<open>
  Modelled from the spec: \<^verbatim>\<open>utils.RunningMean\<close> is not among the source files.  The spec
  describes it as a streaming accumulator (count, sum): a call folds a value in and
  returns the mean so far, \<^verbatim>\<open>reset_states\<close> clears it.
\<close>

record running_mean =
  n_values :: nat
  sum_values :: real

definition new_running_mean :: running_mean where
  "new_running_mean = \<lparr>n_values = 0, sum_values = 0\<rparr>"

definition running_mean_call :: "running_mean \<Rightarrow> real \<Rightarrow> running_mean \<times> real" where
  "running_mean_call m x =
     (let m' = \<lparr>n_values = n_values m + 1, sum_values = sum_values m + x\<rparr>
      in (m', sum_values m' / real (n_values m')))"

text \<open>\<^verbatim>\<open>best_validation_loss\<close> starts as \<^verbatim>\<open>np.Inf\<close>.\<close>

datatype pyfloat = Finite real | PosInf

fun float_less :: "real \<Rightarrow> pyfloat \<Rightarrow> bool" where
  "float_less x (Finite y) = (x < y)"
| "float_less x PosInf = True"

text \<open>
  The local variables of \<^verbatim>\<open>train\<close> that are bound on some paths only (\<^verbatim>\<open>None\<close>: not yet
  bound; reading such a local raises \<^verbatim>\<open>UnboundLocalError\<close>), the trace, and the current
  value of the attribute \<^verbatim>\<open>self.mist_arguments.steps_per_epoch\<close>.  \<^verbatim>\<open>writer\<close> and
  \<^verbatim>\<open>best_model_name\<close> hold the fold they were made for.  \<^verbatim>\<open>patch_counter\<close> is assigned
  at line 703, in the fold's body before the only loop that reads it, so it is a plain
  integer here.  The locals bound unconditionally in the fold's body before the epoch
  loop (\<^verbatim>\<open>model\<close>, \<^verbatim>\<open>optimizer\<close>, \<^verbatim>\<open>learning_rate_scheduler\<close>, the loaders, \<^verbatim>\<open>loss_fn\<close>,
  \<^verbatim>\<open>train_step\<close>, \<^verbatim>\<open>val_step\<close>) are not tracked: the code after the fold loop reads
  \<^verbatim>\<open>epoch\<close> first, and \<^verbatim>\<open>epoch\<close> is bound only after them.
\<close>

record frame =
  trace :: "event list"
  steps_per_epoch_attr :: "int option"
  val_steps :: "int option"
  running_loss_train :: "running_mean option"
  running_loss_validation :: "running_mean option"
  best_validation_loss :: "pyfloat option"
  writer :: "int option"
  best_model_name :: "int option"
  patch_counter :: int
  epoch :: "int option"
  data :: "batch option"
  loss_tensor :: "real option"
  running_loss :: "real option"
  val_loss :: "real option"
  running_val_loss :: "real option"
  pb :: "unit option"

definition initial_frame :: "arguments \<Rightarrow> frame" where
  "initial_frame a =
     \<lparr>trace = [], steps_per_epoch_attr = steps_per_epoch a, val_steps = None,
      running_loss_train = None, running_loss_validation = None,
      best_validation_loss = None, writer = None, best_model_name = None,
      patch_counter = 0, epoch = None, data = None, loss_tensor = None,
      running_loss = None, val_loss = None, running_val_loss = None, pb = None\<rparr>"

text \<open>
  A statement runs on a frame and either raises (the exception, and the frame at that
  point) or ends in a new frame.
\<close>

type_synonym outcome = "(error \<times> frame) + frame"
type_synonym stmt = "frame \<Rightarrow> outcome"

definition emit :: "event \<Rightarrow> stmt" where
  "emit e s = Inr (s\<lparr>trace := trace s @ [e]\<rparr>)"

definition raise :: "error \<Rightarrow> stmt" where
  "raise e s = Inl (e, s)"

definition skip :: stmt where
  "skip s = Inr s"

definition seq :: "stmt \<Rightarrow> stmt \<Rightarrow> stmt" where
  "seq c d s = (case c s of Inl x \<Rightarrow> Inl x | Inr s' \<Rightarrow> d s')"

fun block :: "stmt list \<Rightarrow> stmt" where
  "block [] = skip"
| "block (c # cs) = seq c (block cs)"

subsection \<open>\<^verbatim>\<open>train_step\<close> (lines 448-673) and \<^verbatim>\<open>val_step\<close> (lines 675-701)\<close>

text \<open>
  \<^verbatim>\<open>train_step\<close> returns the loss, and each of its callers binds the result to its local
  \<^verbatim>\<open>loss\<close>; the statement below ends with that binding made.
\<close>

definition train_step :: "world \<Rightarrow> arguments \<Rightarrow> stmt" where
  "train_step w a =
     block
      [emit ZeroGrad,
       (\<lambda>s. emit Forward
               (s\<lparr>loss_tensor := Some (compute_loss a (model_forward w (trace s)))\<rparr>)),
       (if amp a
        then block
          [emit ScaledBackward,
           (if clip_norm a then block [emit Unscale, emit ClipGradNorm] else skip),
           emit ScalerStep,
           emit ScalerUpdate]
        else block
          [emit Backward,
           (if clip_norm a then emit ClipGradNorm else skip),
           emit OptimizerStep])]"

definition val_step :: "world \<Rightarrow> stmt" where
  "val_step w s =
     emit SlidingWindowInference (s\<lparr>val_loss := Some (val_step_loss w (trace s))\<rparr>)"

text \<open>\<^verbatim>\<open>dist.reduce(t, dst=0)\<close> on the tensor held by a local: the tensor is updated in place.\<close>

definition reduce_loss :: "world \<Rightarrow> stmt" where
  "reduce_loss w s =
     (case loss_tensor s of
        None \<Rightarrow> raise (UnboundLocalError ''loss'') s
      | Some l \<Rightarrow> emit (Reduce l) (s\<lparr>loss_tensor := Some (dist_reduce w (trace s) l)\<rparr>))"

definition reduce_val_loss :: "world \<Rightarrow> stmt" where
  "reduce_val_loss w s =
     (case val_loss s of
        None \<Rightarrow> raise (UnboundLocalError ''val_loss'') s
      | Some l \<Rightarrow> emit (Reduce l) (s\<lparr>val_loss := Some (dist_reduce w (trace s) l)\<rparr>))"

subsection \<open>The fold's data: lines 254-303\<close>

text \<open>
  Rows of an array at the indices of a partition.  An index beyond the array (which
  scikit-learn never produces) selects nothing.
\<close>

definition take_rows :: "'a list \<Rightarrow> nat list \<Rightarrow> 'a list" where
  "take_rows xs idx = map (\<lambda>i. xs ! i) (filter (\<lambda>i. i < length xs) idx)"

text \<open>
  \<^verbatim>\<open>train_dtms\<close> is \<^verbatim>\<open>None\<close> without distance maps and otherwise the second component of
  \<^verbatim>\<open>zip(*train_labels_dtms)\<close>, which is a tuple: line 366 asks
  \<^verbatim>\<open>isinstance(train_dtms, list)\<close>, so the kind of sequence is kept.
\<close>

datatype seq_kind = PyList | PyTuple

record data_split =
  train_images :: "string list"
  val_images :: "string list"
  train_labels :: "string list"
  val_labels :: "string list"
  train_dtms :: "(seq_kind \<times> string list) option"

text \<open>
  scikit-learn refuses arrays of different lengths with a \<^verbatim>\<open>ValueError\<close>; unpacking
  \<^verbatim>\<open>zip(*[])\<close> into two names raises \<^verbatim>\<open>ValueError\<close> as well (lines 291, 292).
\<close>

definition split_data :: "world \<Rightarrow> arguments \<Rightarrow> int \<Rightarrow> error + data_split" where
  "split_data w a fold_id =
     (let train_ids = map fst (filter (\<lambda>r. snd r \<noteq> fold_id) (training_paths_dataframe w));
          images = get_numpy_file_paths_list w ''images'' train_ids;
          labels = get_numpy_file_paths_list w ''labels'' train_ids
      in if use_dtms a then
           (let dtms = get_numpy_file_paths_list w ''dtms'' train_ids;
                labels_dtms = zip labels dtms
            in if length images \<noteq> length labels_dtms
               then Inl (ValueError ''Found input variables with inconsistent numbers of samples'')
               else
                 (let (tr, te) = train_test_split w (length images) (val_percent a) (seed_val a);
                      train_labels_dtms = take_rows labels_dtms tr;
                      val_labels_dtms = take_rows labels_dtms te
                  in if train_labels_dtms = [] \<or> val_labels_dtms = []
                     then Inl (ValueError ''not enough values to unpack (expected 2, got 0)'')
                     else Inr \<lparr>train_images = take_rows images tr,
                               val_images = take_rows images te,
                               train_labels = map fst train_labels_dtms,
                               val_labels = map fst val_labels_dtms,
                               train_dtms = Some (PyTuple, map snd train_labels_dtms)\<rparr>))
         else if length images \<noteq> length labels
         then Inl (ValueError ''Found input variables with inconsistent numbers of samples'')
         else
           (let (tr, te) = train_test_split w (length images) (val_percent a) (seed_val a)
            in Inr \<lparr>train_images = take_rows images tr,
                     val_images = take_rows images te,
                     train_labels = take_rows labels tr,
                     val_labels = take_rows labels te,
                     train_dtms = None\<rparr>))"

text \<open>
  The ordered path lists of a fold, as lines 254-279 build them: the ids of the rows
  outside the fold, in the order of the data frame, and their files in a folder.
\<close>

definition train_ids :: "world \<Rightarrow> int \<Rightarrow> string list" where
  "train_ids w fold_id = map fst (filter (\<lambda>r. snd r \<noteq> fold_id) (training_paths_dataframe w))"

definition fold_paths :: "world \<Rightarrow> int \<Rightarrow> string \<Rightarrow> string list" where
  "fold_paths w fold_id folder = get_numpy_file_paths_list w folder (train_ids w fold_id)"

subsection \<open>The fold's set-up: lines 305-446\<close>

definition use_dtms_message :: "string \<Rightarrow> string" where
  "use_dtms_message l =
     ''For loss function '' @ [CHR 0x27] @ l @ [CHR 0x27]
       @ '', the --use-dtms flag must be enabled.''"

definition fold_setup :: "world \<Rightarrow> arguments \<Rightarrow> int \<Rightarrow> int \<Rightarrow> int \<Rightarrow> data_split \<Rightarrow> stmt" where
  "fold_setup w a rank world_size fold_id sp =
     block
      [(\<lambda>s. if int (length (val_images sp)) < world_size
            then raise (InsufficientValidationSetError
                          (int (length (val_images sp))) world_size) s
            else skip s),
       (\<lambda>s. if world_size = 0 then raise ZeroDivisionError s
            else Inr (s\<lparr>val_steps := Some (int (length (val_images sp)) div world_size)\<rparr>)),
       (\<lambda>s. if world_size = 0 then raise ZeroDivisionError s
            else emit (GetTrainingDataset (train_images sp) (train_labels sp)
                         (map_option snd (train_dtms sp)) (batch_size a div world_size)) s),
       emit (GetValidationDataset (val_images sp) (val_labels sp)),
       (\<lambda>s. case steps_per_epoch_attr s of
               None \<Rightarrow>
                 if batch_size a = 0 then raise ZeroDivisionError s
                 else Inr (s\<lparr>steps_per_epoch_attr :=
                              Some (int (length (train_images sp)) div batch_size a)\<rparr>)
             | Some n \<Rightarrow> Inr (s\<lparr>steps_per_epoch_attr := Some n\<rparr>)),
       emit (GetLoss (loss a)),
       (if loss a \<in> set [''bl'', ''hdl'', ''gsl'']
        then block
          [(if \<not> use_dtms a then raise (ValueError (use_dtms_message (loss a))) else skip),
           (case train_dtms sp of
              Some (PyList, dtms) \<Rightarrow>
                if \<not> (length (train_images sp) = length (train_labels sp)
                        \<and> length (train_labels sp) = length dtms)
                then raise (ValueError ''Mismatch in the number of training images, labels, and distance transforms.'')
                else skip
            | _ \<Rightarrow> skip)]
        else skip),
       (if model a \<noteq> ''pretrained'' then emit GetModel else emit ConfigurePretrainedModel),
       emit ConvertSyncBatchnorm,
       emit (ModelTo rank),
       (if model a \<noteq> ''pretrained'' then emit (WrapDDP False) else emit (WrapDDP True)),
       emit GetOptimizer,
       emit GetLrSchedule,
       (if amp a then emit NewGradScaler else skip),
       (if rank = 0
        then (\<lambda>s. emit (NewSummaryWriter fold_id)
                    (s\<lparr>running_loss_train := Some new_running_mean,
                       running_loss_validation := Some new_running_mean,
                       best_validation_loss := Some PosInf,
                       writer := Some fold_id,
                       best_model_name := Some fold_id\<rparr>))
        else skip)]"

subsection \<open>The epoch loop as it stands: lines 703-746\<close>

text \<open>Lines 723-741, one pass of the body after the test of line 720.\<close>

definition dump_patch :: "world \<Rightarrow> stmt" where
  "dump_patch w s =
     (let d = train_loader_next w (trace s); pc = patch_counter s
      in block
          [emit TrainLoaderNext,
           (\<lambda>s. Inr (s\<lparr>data := Some d\<rparr>)),
           emit (PrintShape (image_shape d)),
           (if fst (image_shape d) = 0 then raise ZeroDivisionError
            else if snd (image_shape d) = 0 then raise IndexError
            else emit (WriteImagePatch pc (nat (pc mod int (fst (image_shape d)))) 0)),
           (if snd (image_shape d) > 1
            then emit (WriteImagePatch pc (nat (pc mod int (fst (image_shape d)))) 1)
            else skip),
           (if fst (label_shape d) = 0 then raise ZeroDivisionError
            else if snd (label_shape d) = 0 then raise IndexError
            else emit (WriteLabelPatch pc (nat (pc mod int (fst (label_shape d)))))),
           (\<lambda>s. Inr (s\<lparr>patch_counter := patch_counter s + 1\<rparr>))] s)"

text \<open>
  Lines 719-741: \<^verbatim>\<open>for _ in range(steps_per_epoch)\<close> with the \<^verbatim>\<open>break\<close> of line 721; the
  first argument counts the passes that remain.
\<close>

fun step_loop :: "nat \<Rightarrow> world \<Rightarrow> stmt" where
  "step_loop 0 w s = Inr s"
| "step_loop (Suc n) w s =
     (if patch_counter s \<ge> 50 then Inr s
      else case dump_patch w s of
             Inl x \<Rightarrow> Inl x
           | Inr s' \<Rightarrow> step_loop n w s')"

text \<open>Lines 709-741: one pass of the epoch loop's body, up to the test of line 743.\<close>

definition epoch_body :: "world \<Rightarrow> int \<Rightarrow> int \<Rightarrow> stmt" where
  "epoch_body w rank e =
     block
      [(\<lambda>s. Inr (s\<lparr>epoch := Some e\<rparr>)),
       emit ModelTrain,
       (if rank = 0
        then (\<lambda>s. case steps_per_epoch_attr s of
                    None \<Rightarrow> raise TypeError s
                  | Some n \<Rightarrow> step_loop (nat n) w s)
        else skip)]"

text \<open>
  Lines 706-744: \<^verbatim>\<open>for epoch in range(epochs)\<close> with the \<^verbatim>\<open>break\<close> of line 744, over the
  epochs that remain.
\<close>

fun epoch_loop :: "int list \<Rightarrow> world \<Rightarrow> int \<Rightarrow> stmt" where
  "epoch_loop [] w rank s = Inr s"
| "epoch_loop (e # es) w rank s =
     (case epoch_body w rank e s of
        Inl x \<Rightarrow> Inl x
      | Inr s' \<Rightarrow> if patch_counter s' \<ge> 50 then Inr s' else epoch_loop es w rank s')"

definition py_range :: "int \<Rightarrow> int list" where
  "py_range n = map int [0..<nat n]"

text \<open>Lines 703-746: what the fold does after its set-up.\<close>

definition fold_epochs :: "world \<Rightarrow> arguments \<Rightarrow> int \<Rightarrow> stmt" where
  "fold_epochs w a rank =
     block
      [(\<lambda>s. Inr (s\<lparr>patch_counter := 0\<rparr>)),
       epoch_loop (py_range (epochs a)) w rank,
       emit SetTrace]"

text \<open>Lines 253-746: the body of \<^verbatim>\<open>for fold in self.mist_arguments.folds\<close>, and the loop.\<close>

definition train_fold :: "world \<Rightarrow> arguments \<Rightarrow> int \<Rightarrow> int \<Rightarrow> int \<Rightarrow> stmt" where
  "train_fold w a rank world_size fold_id s =
     (case split_data w a fold_id of
        Inl e \<Rightarrow> raise e s
      | Inr sp \<Rightarrow>
          block [fold_setup w a rank world_size fold_id sp, fold_epochs w a rank] s)"

fun fold_loop :: "int list \<Rightarrow> world \<Rightarrow> arguments \<Rightarrow> int \<Rightarrow> int \<Rightarrow> stmt" where
  "fold_loop [] w a rank world_size s = Inr s"
| "fold_loop (f # fs) w a rank world_size s =
     (case train_fold w a rank world_size f s of
        Inl x \<Rightarrow> Inl x
      | Inr s' \<Rightarrow> fold_loop fs w a rank world_size s')"

subsection \<open>After the fold loop: lines 753-920\<close>

text \<open>
  From line 753 on the code is indented to the level of \<^verbatim>\<open>for fold in ...\<close>: it is no
  longer part of the epoch loop or of the fold loop, and runs once, after the last fold,
  on the locals the loops have left behind.
\<close>

definition compute_alpha :: stmt where
  "compute_alpha s =
     (case epoch s of
        None \<Rightarrow> raise (UnboundLocalError ''epoch'') s
      | Some e \<Rightarrow> emit (AlphaScheduleCall e) s)"

text \<open>Lines 753-789.  The only binding of \<^verbatim>\<open>pb\<close> is the \<^verbatim>\<open>with\<close> statement of line 823.\<close>

definition step_after_folds :: "world \<Rightarrow> arguments \<Rightarrow> int \<Rightarrow> stmt" where
  "step_after_folds w a world_size =
     block
      [compute_alpha,
       (\<lambda>s. case data s of
               None \<Rightarrow> raise (UnboundLocalError ''data'') s
             | Some d \<Rightarrow> train_step w a s),
       emit LrSchedulerStep,
       reduce_loss w,
       (\<lambda>s. case loss_tensor s of
               None \<Rightarrow> raise (UnboundLocalError ''loss'') s
             | Some l \<Rightarrow>
                 if world_size = 0 then raise ZeroDivisionError s
                 else
                   (case running_loss_train s of
                      None \<Rightarrow> raise (UnboundLocalError ''running_loss_train'') s
                    | Some m \<Rightarrow>
                        (let (m', r) = running_mean_call m (l / real_of_int world_size)
                         in Inr (s\<lparr>running_loss_train := Some m', running_loss := Some r\<rparr>)))),
       (\<lambda>s. case pb s of
               None \<Rightarrow> raise (UnboundLocalError ''pb'') s
             | Some u \<Rightarrow>
                 (case running_loss s of
                    None \<Rightarrow> raise (UnboundLocalError ''running_loss'') s
                  | Some r \<Rightarrow> emit (ProgressBarUpdate r) s))]"

text \<open>Lines 793-813: the loop that was the branch of the other ranks.\<close>

definition train_pass :: "world \<Rightarrow> arguments \<Rightarrow> stmt" where
  "train_pass w a =
     block
      [(\<lambda>s. emit TrainLoaderNext (s\<lparr>data := Some (train_loader_next w (trace s))\<rparr>)),
       compute_alpha,
       train_step w a,
       emit LrSchedulerStep,
       reduce_loss w]"

fun train_steps :: "nat \<Rightarrow> world \<Rightarrow> arguments \<Rightarrow> stmt" where
  "train_steps 0 w a s = Inr s"
| "train_steps (Suc n) w a s =
     (case train_pass w a s of
        Inl x \<Rightarrow> Inl x
      | Inr s' \<Rightarrow> train_steps n w a s')"

text \<open>Lines 826-847 and 877-886: one validation pass, on rank 0 and on the other ranks.\<close>

definition validation_pass :: "world \<Rightarrow> int \<Rightarrow> int \<Rightarrow> stmt" where
  "validation_pass w rank world_size =
     block
      ([(\<lambda>s. emit ValidationLoaderNext
                (s\<lparr>data := Some (validation_loader_next w (trace s))\<rparr>)),
        val_step w,
        reduce_val_loss w]
       @ (if rank = 0
          then
           [(\<lambda>s. case val_loss s of
                    None \<Rightarrow> raise (UnboundLocalError ''val_loss'') s
                  | Some l \<Rightarrow>
                      if world_size = 0 then raise ZeroDivisionError s
                      else
                        (case running_loss_validation s of
                           None \<Rightarrow> raise (UnboundLocalError ''running_loss_validation'') s
                         | Some m \<Rightarrow>
                             (let (m', r) = running_mean_call m (l / real_of_int world_size)
                              in emit (ProgressBarUpdate r)
                                   (s\<lparr>running_loss_validation := Some m',
                                      running_val_loss := Some r\<rparr>))))]
          else []))"

fun validation_steps :: "nat \<Rightarrow> world \<Rightarrow> int \<Rightarrow> int \<Rightarrow> stmt" where
  "validation_steps 0 w rank world_size s = Inr s"
| "validation_steps (Suc n) w rank world_size s =
     (case validation_pass w rank world_size s of
        Inl x \<Rightarrow> Inl x
      | Inr s' \<Rightarrow> validation_steps n w rank world_size s')"

text \<open>Lines 849-873: the comparison with the best validation loss, on rank 0.\<close>

definition checkpoint_if_improved :: stmt where
  "checkpoint_if_improved s =
     (case running_val_loss s of
        None \<Rightarrow> raise (UnboundLocalError ''running_val_loss'') s
      | Some v \<Rightarrow>
          (case best_validation_loss s of
             None \<Rightarrow> raise (UnboundLocalError ''best_validation_loss'') s
           | Some b \<Rightarrow>
               if float_less v b
               then
                 (case best_model_name s of
                    None \<Rightarrow> raise (UnboundLocalError ''best_model_name'') s
                  | Some f \<Rightarrow>
                      block [emit (ConsolePrint ''Validation loss IMPROVED''),
                             (\<lambda>s. Inr (s\<lparr>best_validation_loss := Some (Finite v)\<rparr>)),
                             emit (TorchSave f)] s)
               else emit (ConsolePrint ''Validation loss did NOT improve'') s))"

text \<open>Lines 819-886.\<close>

definition validation :: "world \<Rightarrow> int \<Rightarrow> int \<Rightarrow> stmt" where
  "validation w rank world_size =
     block
      [emit ModelEval,
       (\<lambda>s. case val_steps s of
               None \<Rightarrow> raise (UnboundLocalError ''val_steps'') s
             | Some n \<Rightarrow>
                 if rank = 0
                 then block [(\<lambda>s. Inr (s\<lparr>pb := Some ()\<rparr>)),
                             validation_steps (nat n) w rank world_size,
                             checkpoint_if_improved] s
                 else validation_steps (nat n) w rank world_size s)]"

text \<open>Lines 889-909.\<close>

definition log_epoch :: "int \<Rightarrow> stmt" where
  "log_epoch rank =
     block
      [emit TrainLoaderReset,
       emit ValidationLoaderReset,
       (if rank = 0
        then block
          [(\<lambda>s. case running_loss s of
                   None \<Rightarrow> raise (UnboundLocalError ''running_loss'') s
                 | Some r \<Rightarrow>
                     (case running_val_loss s of
                        None \<Rightarrow> raise (UnboundLocalError ''running_val_loss'') s
                      | Some v \<Rightarrow>
                          (case epoch s of
                             None \<Rightarrow> raise (UnboundLocalError ''epoch'') s
                           | Some e \<Rightarrow> emit (AddScalars r v (e + 1)) s))),
           emit WriterFlush,
           (\<lambda>s. Inr (s\<lparr>running_loss_train := Some new_running_mean,
                        running_loss_validation := Some new_running_mean\<rparr>))]
        else skip)]"

text \<open>Lines 753-920.\<close>

definition after_folds :: "world \<Rightarrow> arguments \<Rightarrow> int \<Rightarrow> int \<Rightarrow> stmt" where
  "after_folds w a rank world_size =
     block
      [step_after_folds w a world_size,
       (\<lambda>s. case steps_per_epoch_attr s of
               None \<Rightarrow> raise TypeError s
             | Some n \<Rightarrow> train_steps (nat n) w a s),
       emit Barrier,
       validation w rank world_size,
       log_epoch rank,
       emit Barrier,
       (if rank = 0
        then (\<lambda>s. case writer s of
                    None \<Rightarrow> raise (UnboundLocalError ''writer'') s
                  | Some f \<Rightarrow> emit WriterClose s)
        else skip),
       emit DestroyProcessGroup]"

subsection \<open>\<^verbatim>\<open>Trainer.train\<close> (lines 233-920)\<close>

definition train :: "world \<Rightarrow> arguments \<Rightarrow> int \<Rightarrow> int \<Rightarrow> stmt" where
  "train w a rank world_size =
     block
      [emit (InitProcessGroup rank world_size),
       emit (CudaSetDevice rank),
       (if rank = 0 then emit (ConsolePrint ''Starting training'') else skip),
       fold_loop (folds a) w a rank world_size,
       after_folds w a rank world_size]"

text \<open>A worker started on fresh locals, with the arguments as the user gave them.\<close>

definition run_train :: "world \<Rightarrow> arguments \<Rightarrow> int \<Rightarrow> int \<Rightarrow> outcome" where
  "run_train w a rank world_size = train w a rank world_size (initial_frame a)"

text \<open>What a run raised, if anything, and the events of a run.\<close>

definition raised :: "outcome \<Rightarrow> error option" where
  "raised r = (case r of Inl (e, s) \<Rightarrow> Some e | Inr s \<Rightarrow> None)"

definition events :: "outcome \<Rightarrow> event list" where
  "events r = (case r of Inl (e, s) \<Rightarrow> trace s | Inr s \<Rightarrow> trace s)"

section \<open>\<^verbatim>\<open>preprocess_dataset\<close> of \<^verbatim>\<open>src/preprocess_data/preprocess.py\<close>\<close>

text \<open>
  \<^verbatim>\<open>preprocess_dataset(args)\<close> (lines 225-275) reads \<^verbatim>\<open>config.json\<close> and
  \<^verbatim>\<open>train_paths.csv\<close> and walks over the rows of the data frame.  The keys of the
  configuration it reads itself, a row as the loop uses it (the mask and the list of
  image paths), and the bounding boxes of \<^verbatim>\<open>fg_bboxes.csv\<close> (one dictionary per row) are
  the inputs; what it does to the outside is again a trace.  \<^verbatim>\<open>convert_nifti_to_numpy\<close>
  and \<^verbatim>\<open>preprocess_example\<close> work on image files through external libraries: their calls
  are events.
\<close>

record config =
  modality :: string
  use_n4_bias_correction :: bool
  crop_to_fg :: bool

record patient =
  mask :: string
  image_list :: "string list"

type_synonym bbox = "(string \<times> int) list"

record files =
  config_json :: config
  train_paths_csv :: "patient list"
  fg_bboxes_csv :: "bbox list"

datatype pre_event =
    Warn
  | CreateEmptyDir string
  | PrintPreprocessing
  | GetProgressBar string
  | ConvertNiftiToNumpy "string list" string
  | ReadFgBboxes
  | PreprocessExample "string list" string bbox
  | DumpConfig

text \<open>The local \<^verbatim>\<open>fg_bboxes\<close> (\<^verbatim>\<open>None\<close>: not bound) and the trace.\<close>

record pre_frame =
  pre_trace :: "pre_event list"
  fg_bboxes :: "bbox list option"

type_synonym pre_outcome = "(error \<times> pre_frame) + pre_frame"

definition pre_emit :: "pre_event \<Rightarrow> pre_frame \<Rightarrow> pre_frame" where
  "pre_emit e s = s\<lparr>pre_trace := pre_trace s @ [e]\<rparr>"

text \<open>Lines 256-272: the body of the loop for row \<^verbatim>\<open>i\<close>.\<close>

definition preprocess_patient ::
  "files \<Rightarrow> bool \<Rightarrow> nat \<Rightarrow> patient \<Rightarrow> pre_frame \<Rightarrow> pre_outcome" where
  "preprocess_patient fs no_preprocess i p s =
     (if no_preprocess
      then Inr (pre_emit (ConvertNiftiToNumpy (image_list p) (mask p)) s)
      else
        (let s1 = (if crop_to_fg (config_json fs)
                   then (pre_emit ReadFgBboxes s)\<lparr>fg_bboxes := Some (fg_bboxes_csv fs)\<rparr>
                   else s)
         in case fg_bboxes s1 of
              None \<Rightarrow> Inl (UnboundLocalError ''fg_bboxes'', s1)
            | Some tbl \<Rightarrow>
                if i < length tbl
                then Inr (pre_emit (PreprocessExample (image_list p) (mask p) (tbl ! i)) s1)
                else Inl (IndexError, s1)))"

text \<open>Line 255: \<^verbatim>\<open>for i in pb.track(range(len(df)))\<close>, over the rows that remain.\<close>

fun patient_loop ::
  "files \<Rightarrow> bool \<Rightarrow> nat \<Rightarrow> patient list \<Rightarrow> pre_frame \<Rightarrow> pre_outcome" where
  "patient_loop fs no_preprocess i [] s = Inr s"
| "patient_loop fs no_preprocess i (p # ps) s =
     (case preprocess_patient fs no_preprocess i p s of
        Inl x \<Rightarrow> Inl x
      | Inr s' \<Rightarrow> patient_loop fs no_preprocess (Suc i) ps s')"

definition preprocess_dataset :: "files \<Rightarrow> bool \<Rightarrow> pre_outcome" where
  "preprocess_dataset fs no_preprocess =
     (let c = config_json fs;
          s0 = \<lparr>pre_trace =
                  (if modality c \<noteq> ''mr'' \<and> use_n4_bias_correction c then [Warn] else [])
                  @ [CreateEmptyDir ''images'', CreateEmptyDir ''labels'', PrintPreprocessing,
                     GetProgressBar
                       (if no_preprocess then ''Converting nifti to npy'' else ''Preprocessing'')],
                fg_bboxes = None\<rparr>
      in case patient_loop fs no_preprocess 0 (train_paths_csv fs) s0 of
           Inl x \<Rightarrow> Inl x
         | Inr s \<Rightarrow> Inr (pre_emit DumpConfig s))"

definition pre_events :: "pre_outcome \<Rightarrow> pre_event list" where
  "pre_events r = (case r of Inl (e, s) \<Rightarrow> pre_trace s | Inr s \<Rightarrow> pre_trace s)"

definition pre_raised :: "pre_outcome \<Rightarrow> error option" where
  "pre_raised r = (case r of Inl (e, s) \<Rightarrow> Some e | Inr s \<Rightarrow> None)"

definition is_preprocess_example :: "pre_event \<Rightarrow> bool" where
  "is_preprocess_example e = (case e of PreprocessExample l m b \<Rightarrow> True | _ \<Rightarrow> False)"

section \<open>Concrete inputs\<close>

text \<open>
  A small world for running the definitions: five patients, the first in fold 0; a split
  that sends the first two rows to validation; batches of two samples with one channel;
  a network whose loss is always 1; a single process, so that \<^verbatim>\<open>dist.reduce\<close> changes
  nothing.
\<close>

definition sample_world :: world where
  "sample_world =
     \<lparr>training_paths_dataframe =
        [(''p0'', 0), (''p1'', 1), (''p2'', 1), (''p3'', 1), (''p4'', 1)],
      get_numpy_file_paths_list = (\<lambda>folder ids. map (\<lambda>i. folder @ ''/'' @ i) ids),
      train_test_split = (\<lambda>n test_size random_state. ([2..<n], [0, 1])),
      train_loader_next = (\<lambda>h. \<lparr>image_shape = (2, 1), label_shape = (2, 1)\<rparr>),
      validation_loader_next = (\<lambda>h. \<lparr>image_shape = (1, 1), label_shape = (1, 1)\<rparr>),
      model_forward = (\<lambda>h. \<lparr>primary_loss = 1, head_losses = [], vae_loss = 0,
                              l2_norms = [], l1_norms = []\<rparr>),
      val_step_loss = (\<lambda>h. 1/2),
      dist_reduce = (\<lambda>h v. v)\<rparr>"

definition sample_args :: arguments where
  "sample_args =
     \<lparr>folds = [0], use_dtms = False, val_percent = 1/2, seed_val = 42, batch_size = 1,
      steps_per_epoch = None, loss = ''dice_ce'', model = ''nnunet'', epochs = 2,
      amp = False, clip_norm = False, deep_supervision = False, vae_reg = False,
      vae_penalty = 0, l2_reg = False, l2_penalty = 0, l1_reg = False, l1_penalty = 0\<rparr>"

text \<open>The split of fold 0 in the sample world.\<close>

definition sample_split :: data_split where
  "sample_split =
     \<lparr>train_images = [''images/p3'', ''images/p4''],
      val_images = [''images/p1'', ''images/p2''],
      train_labels = [''labels/p3'', ''labels/p4''],
      val_labels = [''labels/p1'', ''labels/p2''],
      train_dtms = None\<rparr>"

text \<open>Deep supervision switched on, and outputs with no, one and three auxiliary heads.\<close>

definition ds_args :: arguments where
  "ds_args = sample_args\<lparr>deep_supervision := True\<rparr>"

definition heads_out :: "real \<Rightarrow> real list \<Rightarrow> forward_out" where
  "heads_out l0 ls =
     \<lparr>primary_loss = l0, head_losses = ls, vae_loss = 0, l2_norms = [], l1_norms = []\<rparr>"

definition bl_args :: arguments where
  "bl_args = sample_args\<lparr>loss := ''bl''\<rparr>"

text \<open>Thirty steps per epoch, so that the second of the two epochs reaches the 50th patch.\<close>

definition dump_args :: arguments where
  "dump_args = sample_args\<lparr>steps_per_epoch := Some 30\<rparr>"

text \<open>
  Another world and other arguments: a different data frame and fold with the same four
  patients outside the fold, other loaders and losses, another batch size, loss function
  and number of epochs; the seed, the validation fraction, the use of distance maps and
  the library's split are those of the sample.
\<close>

definition other_world :: world where
  "other_world =
     \<lparr>training_paths_dataframe =
        [(''p1'', 0), (''p2'', 2), (''p8'', 5), (''p3'', 0), (''p4'', 1)],
      get_numpy_file_paths_list = (\<lambda>folder ids. map (\<lambda>i. folder @ ''/'' @ i) ids),
      train_test_split = (\<lambda>n test_size random_state. ([2..<n], [0, 1])),
      train_loader_next = (\<lambda>h. \<lparr>image_shape = (4, 2), label_shape = (4, 1)\<rparr>),
      validation_loader_next = (\<lambda>h. \<lparr>image_shape = (1, 2), label_shape = (1, 1)\<rparr>),
      model_forward = (\<lambda>h. \<lparr>primary_loss = 2, head_losses = [1], vae_loss = 3,
                              l2_norms = [1], l1_norms = [2]\<rparr>),
      val_step_loss = (\<lambda>h. 1/4),
      dist_reduce = (\<lambda>h v. 2 * v)\<rparr>"

definition other_args :: arguments where
  "other_args = sample_args\<lparr>folds := [5], batch_size := 4, loss := ''bl'', epochs := 7,
                             amp := True, steps_per_epoch := Some 3\<rparr>"

text \<open>Two patients with one CT image each, without and with cropping to the foreground.\<close>

definition sample_files :: files where
  "sample_files =
     \<lparr>config_json = \<lparr>modality = ''ct'', use_n4_bias_correction = False, crop_to_fg = False\<rparr>,
      train_paths_csv =
        [\<lparr>mask = ''p0/mask.nii.gz'', image_list = [''p0/ct.nii.gz'']\<rparr>,
         \<lparr>mask = ''p1/mask.nii.gz'', image_list = [''p1/ct.nii.gz'']\<rparr>],
      fg_bboxes_csv = [[(''x_start'', 0), (''x_end'', 9)], [(''x_start'', 1), (''x_end'', 8)]]\<rparr>"

definition cropping_files :: files where
  "cropping_files =
     sample_files\<lparr>config_json := (config_json sample_files)\<lparr>crop_to_fg := True\<rparr>\<rparr>"

section \<open>Observations on a run\<close>

text \<open>The frame a run ends in, and the events a statement adds to the trace it starts from.\<close>

definition last_frame :: "outcome \<Rightarrow> frame" where
  "last_frame r = (case r of Inl (e, s) \<Rightarrow> s | Inr s \<Rightarrow> s)"

definition emitted :: "frame \<Rightarrow> outcome \<Rightarrow> event list" where
  "emitted s r = drop (length (trace s)) (events r)"

text \<open>
  The events of dumping patches: switching the model to training mode, pulling a batch,
  printing its shape, writing an image or a label file, and the debugger trap.  No event
  of a training step, of a reduction, of validation or of a checkpoint is among them.
\<close>

definition patch_dump_event :: "event \<Rightarrow> bool" where
  "patch_dump_event e =
     (case e of
        ModelTrain \<Rightarrow> True
      | TrainLoaderNext \<Rightarrow> True
      | PrintShape sh \<Rightarrow> True
      | WriteImagePatch pc i c \<Rightarrow> True
      | WriteLabelPatch pc i \<Rightarrow> True
      | SetTrace \<Rightarrow> True
      | _ \<Rightarrow> False)"

text \<open>
  Reading a trace of patch dumps.  Between passes the reader is idle at the number of the
  next patch; \<^verbatim>\<open>model.train(True)\<close> leaves it there, and the debugger trap ends the reading.
  A pass is: a batch is pulled, its shape printed, channel 0 of the sample
  \<^verbatim>\<open>patch_counter % shape[0]\<close> written under the number of the patch, channel 1 of the
  same sample written if and only if the printed shape has more than one channel, and a
  label written under the same number; after it the reader is idle at the next number.
  Any other event, or a file under another number, is refused (\<^verbatim>\<open>Refused\<close>).  The sample
  index of a label depends on the label's shape, which is not printed, and is not read.
\<close>

datatype dump_state =
    Idle int
  | Pulled int
  | Shaped int "nat \<times> nat"
  | ImageWritten int "nat \<times> nat"
  | SecondImageWritten int
  | Trapped int
  | Refused

definition dump_step :: "dump_state \<Rightarrow> event \<Rightarrow> dump_state" where
  "dump_step st e =
     (case st of
        Idle pc \<Rightarrow>
          (case e of
             ModelTrain \<Rightarrow> Idle pc
           | TrainLoaderNext \<Rightarrow> Pulled pc
           | SetTrace \<Rightarrow> Trapped pc
           | _ \<Rightarrow> Refused)
      | Pulled pc \<Rightarrow>
          (case e of
             PrintShape sh \<Rightarrow> Shaped pc sh
           | _ \<Rightarrow> Refused)
      | Shaped pc sh \<Rightarrow>
          (case e of
             WriteImagePatch p i c \<Rightarrow>
               if p = pc \<and> i = nat (pc mod int (fst sh)) \<and> c = 0
               then ImageWritten pc sh else Refused
           | _ \<Rightarrow> Refused)
      | ImageWritten pc sh \<Rightarrow>
          (case e of
             WriteImagePatch p i c \<Rightarrow>
               if p = pc \<and> i = nat (pc mod int (fst sh)) \<and> c = 1 \<and> 1 < snd sh
               then SecondImageWritten pc else Refused
           | WriteLabelPatch p j \<Rightarrow>
               if p = pc \<and> \<not> 1 < snd sh then Idle (pc + 1) else Refused
           | _ \<Rightarrow> Refused)
      | SecondImageWritten pc \<Rightarrow>
          (case e of
             WriteLabelPatch p j \<Rightarrow> if p = pc then Idle (pc + 1) else Refused
           | _ \<Rightarrow> Refused)
      | Trapped pc \<Rightarrow> Refused
      | Refused \<Rightarrow> Refused)"

definition read_dump :: "int \<Rightarrow> event list \<Rightarrow> dump_state" where
  "read_dump pc evs = foldl dump_step (Idle pc) evs"

text \<open>A batch whose image and label arrays have at least one sample and one channel.\<close>

definition well_shaped :: "batch \<Rightarrow> bool" where
  "well_shaped b =
     (0 < fst (image_shape b) \<and> 0 < snd (image_shape b)
      \<and> 0 < fst (label_shape b) \<and> 0 < snd (label_shape b))"

text \<open>The events of a training step proper (lines 596-673 and 777-780).\<close>

definition training_event :: "event \<Rightarrow> bool" where
  "training_event e =
     (case e of
        ZeroGrad \<Rightarrow> True
      | Forward \<Rightarrow> True
      | Backward \<Rightarrow> True
      | ScaledBackward \<Rightarrow> True
      | OptimizerStep \<Rightarrow> True
      | ScalerStep \<Rightarrow> True
      | LrSchedulerStep \<Rightarrow> True
      | Reduce v \<Rightarrow> True
      | _ \<Rightarrow> False)"

section \<open>Auxiliary notions for the proofs\<close>

text \<open>A statement that raises only exceptions of a given kind.\<close>

definition raises_only :: "(error \<Rightarrow> bool) \<Rightarrow> stmt \<Rightarrow> bool" where
  "raises_only P c = (\<forall>s e s'. c s = Inl (e, s') \<longrightarrow> P e)"

definition not_insufficient :: "error \<Rightarrow> bool" where
  "not_insufficient e = (case e of InsufficientValidationSetError v n \<Rightarrow> False | _ \<Rightarrow> True)"

text \<open>
  A frame in which \<^verbatim>\<open>pb\<close> is unbound and whose trace has no barrier and no checkpoint
  write, and a statement that keeps a property of frames, however it ends.
\<close>

definition quiet :: "event \<Rightarrow> bool" where
  "quiet e = (case e of Barrier \<Rightarrow> False | TorchSave f \<Rightarrow> False | _ \<Rightarrow> True)"

definition quiet_frame :: "frame \<Rightarrow> bool" where
  "quiet_frame s = (pb s = None \<and> list_all quiet (trace s))"

definition keeps :: "(frame \<Rightarrow> bool) \<Rightarrow> stmt \<Rightarrow> bool" where
  "keeps I c = (\<forall>s. I s \<longrightarrow> I (last_frame (c s)))"

text \<open>
  What the epoch loop of lines 706-744 does between two frames: it extends the trace by
  events of dumping patches, pulls at most as many batches as the patch counter has room
  to 50, counts each of them, and where the counter crosses 50 the last event is the
  label file of patch 49.
\<close>

definition dump_run :: "frame \<Rightarrow> outcome \<Rightarrow> event list \<Rightarrow> bool" where
  "dump_run s r evs =
     (trace (last_frame r) = trace s @ evs
      \<and> list_all patch_dump_event evs
      \<and> patch_counter s + int (count_list evs TrainLoaderNext) \<le> 50
      \<and> (case r of
            Inl x \<Rightarrow> True
          | Inr s' \<Rightarrow>
              patch_counter s' = patch_counter s + int (count_list evs TrainLoaderNext)
              \<and> (patch_counter s < 50 \<and> 50 \<le> patch_counter s' \<longrightarrow>
                   (\<exists>pre j. evs = pre @ [WriteLabelPatch 49 j]))))"

text \<open>A statement that raises whenever it is started in a quiet frame.\<close>

definition stops :: "stmt \<Rightarrow> bool" where
  "stops c = (\<forall>s. quiet_frame s \<longrightarrow> (\<exists>e s'. c s = Inl (e, s') \<and> quiet_frame s'))"

text \<open>
  What the statements of the epoch loop do to the reading of the trace: from a frame
  whose counter the reader is idle at, the events added are accepted, and a statement
  that ends normally leaves the reader idle at the new counter and the steps per epoch
  as they were.
\<close>

definition dump_read :: "frame \<Rightarrow> outcome \<Rightarrow> bool" where
  "dump_read s r =
     (\<exists>evs. trace (last_frame r) = trace s @ evs
         \<and> read_dump (patch_counter s) evs \<noteq> Refused
         \<and> (case r of
               Inl x \<Rightarrow> True
             | Inr s' \<Rightarrow>
                 read_dump (patch_counter s) evs = Idle (patch_counter s')
                 \<and> steps_per_epoch_attr s' = steps_per_epoch_attr s))"

section \<open>Properties of the composite loss\<close>

lemma deep_supervision_loop_sum:
  "deep_supervision_loop k ls acc =
     acc + (\<Sum>i<length ls. (1/2) ^ (k + i + 1) * ls ! i)"
proof (induction ls arbitrary: k acc)
  case Nil
  then show ?case by simp
next
  case (Cons l ls)
  have "(\<Sum>i<length (l # ls). (1/2) ^ (k + i + 1) * (l # ls) ! i)
          = (1/2) ^ (k + 1) * l + (\<Sum>i<length ls. (1/2) ^ (Suc k + i + 1) * ls ! i)"
    unfolding length_Cons sum.lessThan_Suc_shift by simp
  with Cons.IH [of "Suc k" "acc + 0.5 ^ (k + 1) * l"] show ?case
    by simp
qed

lemma c_norm_eq: "c_norm n = 1 / (2 - 1 / 2 ^ (n + 1))"
proof -
  have "- (int n + 1) = - int (n + 1)" by simp
  then have "(2::real) powi (- (int n + 1)) = inverse (2 ^ (n + 1))"
    by (simp only: power_int_minus power_int_of_nat)
  then show ?thesis by (simp add: c_norm_def inverse_eq_divide)
qed

lemma foldl_plus_sum_list: "foldl (+) acc ns = acc + sum_list (ns :: real list)"
  by (induction ns arbitrary: acc) simp_all

lemma compute_loss_terms:
  "compute_loss a out = supervised_loss a out
      + (if vae_reg a then vae_penalty a * vae_loss out else 0)
      + (if l2_reg a then l2_penalty a * sum_list (l2_norms out) else 0)
      + (if l1_reg a then l1_penalty a * sum_list (l1_norms out) else 0)"
  by (simp add: compute_loss_def norm_of_model_parameters_def Let_def foldl_plus_sum_list)

text \<open>
  Claim C2.  With deep supervision enabled, \<open>H\<close> auxiliary heads, primary loss \<open>L0\<close> and
  head losses \<open>L\<^sub>k\<close>, the loss before the VAE and parameter-norm terms is
  \<open>(L0 + \<Sum>k<H. 0.5^(k+1) * L\<^sub>k) * 1 / (2 - 2^-(H+1))\<close>, for every \<open>H\<close>; the other terms of
  \<^verbatim>\<open>compute_loss\<close> are added to it afterwards.
\<close>

theorem deep_supervision_total:
  assumes "deep_supervision a"
  shows "supervised_loss a out =
           (primary_loss out
              + (\<Sum>k<length (head_losses out). (1/2) ^ (k + 1) * head_losses out ! k))
           * (1 / (2 - 1 / 2 ^ (length (head_losses out) + 1)))
       \<and> compute_loss a out = supervised_loss a out
           + (if vae_reg a then vae_penalty a * vae_loss out else 0)
           + (if l2_reg a then l2_penalty a * sum_list (l2_norms out) else 0)
           + (if l1_reg a then l1_penalty a * sum_list (l1_norms out) else 0)"
  using assms
  by (simp add: supervised_loss_def deep_supervision_loop_sum c_norm_eq compute_loss_terms)

text \<open>The formula at \<open>H = 0\<close>, \<open>H = 1\<close> and \<open>H = 3\<close>.\<close>

theorem deep_supervision_total_witness:
  "deep_supervision ds_args
   \<and> supervised_loss ds_args (heads_out 3 []) = 3 * (1 / (2 - 1 / 2))
   \<and> supervised_loss ds_args (heads_out 3 [1]) = (3 + 1 / 2 * 1) * (1 / (2 - 1 / 4))
   \<and> supervised_loss ds_args (heads_out 3 [1, 2, 4])
        = (3 + (1 / 2 * 1 + 1 / 4 * 2 + 1 / 8 * 4)) * (1 / (2 - 1 / 16))
   \<and> compute_loss ds_args (heads_out 3 [1, 2, 4]) = 72 / 31"
proof -
  have d: "deep_supervision ds_args" by (simp add: ds_args_def sample_args_def)
  have three: "{..<3::nat} = {0, 1, 2}" by auto
  show ?thesis
    using d deep_supervision_total [OF d, of "heads_out 3 []"]
      deep_supervision_total [OF d, of "heads_out 3 [1]"]
      deep_supervision_total [OF d, of "heads_out 3 [1, 2, 4]"]
    by (simp add: heads_out_def ds_args_def sample_args_def three)
qed





section \<open>Which exceptions a fold can raise\<close>

lemma raises_only_emit: "raises_only P (emit e)"
  by (simp add: raises_only_def emit_def)

lemma raises_only_skip: "raises_only P skip"
  by (simp add: raises_only_def skip_def)

lemma raises_only_raise: "P e \<Longrightarrow> raises_only P (raise e)"
  by (simp add: raises_only_def raise_def)

lemma raises_only_seq: "raises_only P c \<Longrightarrow> raises_only P d \<Longrightarrow> raises_only P (seq c d)"
  by (auto simp: raises_only_def seq_def split: sum.splits)

lemma raises_only_block: "(\<And>c. c \<in> set cs \<Longrightarrow> raises_only P c) \<Longrightarrow> raises_only P (block cs)"
  by (induction cs) (simp_all add: raises_only_skip raises_only_seq)

lemma raises_only_block_Nil: "raises_only P (block [])"
  by (simp add: raises_only_skip)

lemma raises_only_block_Cons:
  "raises_only P c \<Longrightarrow> raises_only P (block cs) \<Longrightarrow> raises_only P (block (c # cs))"
  by (simp add: raises_only_seq)

lemma raises_only_if:
  "raises_only P c \<Longrightarrow> raises_only P d \<Longrightarrow> raises_only P (if b then c else d)"
  by simp

lemma raises_only_assign: "raises_only P (\<lambda>s. Inr (f s))"
  by (simp add: raises_only_def)

lemmas raises_only_intros =
  raises_only_block_Nil raises_only_block_Cons raises_only_if raises_only_emit
  raises_only_skip raises_only_assign

lemma raises_onlyD: "raises_only P c \<Longrightarrow> c s = Inl (e, s') \<Longrightarrow> P e"
  by (auto simp: raises_only_def)

lemma not_insufficient_simps:
  "not_insufficient ZeroDivisionError" "not_insufficient IndexError"
  "not_insufficient TypeError" "not_insufficient (ValueError m)"
  "not_insufficient (UnboundLocalError x)"
  "\<not> not_insufficient (InsufficientValidationSetError v n)"
  by (simp_all add: not_insufficient_def)

lemma raises_only_dump_patch: "raises_only not_insufficient (dump_patch w)"
proof -
  have "dump_patch w s = Inl (e, s') \<Longrightarrow> not_insufficient e" for s e s'
    unfolding dump_patch_def Let_def
    by (erule raises_onlyD [rotated])
       (intro raises_only_intros raises_only_raise not_insufficient_simps)
  then show ?thesis by (auto simp: raises_only_def)
qed

lemma raises_only_step_loop: "raises_only not_insufficient (step_loop n w)"
proof -
  have "step_loop n w s = Inl (e, s') \<Longrightarrow> not_insufficient e" for s e s'
  proof (induction n arbitrary: s)
    case 0
    then show ?case by simp
  next
    case (Suc n)
    show ?case
    proof (cases "dump_patch w s")
      case (Inl x)
      with Suc.prems have "dump_patch w s = Inl (e, s')"
        by (simp split: if_splits)
      then show ?thesis by (rule raises_onlyD [OF raises_only_dump_patch])
    next
      case (Inr s1)
      with Suc.prems have "step_loop n w s1 = Inl (e, s')"
        by (simp split: if_splits)
      then show ?thesis by (rule Suc.IH)
    qed
  qed
  then show ?thesis by (auto simp: raises_only_def)
qed

lemma raises_only_epoch_body: "raises_only not_insufficient (epoch_body w rank e)"
proof -
  have "raises_only not_insufficient
          (\<lambda>s. case steps_per_epoch_attr s of
                  None \<Rightarrow> raise TypeError s
                | Some n \<Rightarrow> step_loop (nat n) w s)"
    using raises_only_step_loop [of _ w]
    by (auto simp: raises_only_def raise_def not_insufficient_simps split: option.splits)
  then show ?thesis
    unfolding epoch_body_def by (intro raises_only_intros)
qed

lemma raises_only_epoch_loop: "raises_only not_insufficient (epoch_loop es w rank)"
proof -
  have "epoch_loop es w rank s = Inl (e, s') \<Longrightarrow> not_insufficient e" for s e s'
  proof (induction es arbitrary: s)
    case Nil
    then show ?case by simp
  next
    case (Cons x es)
    show ?case
    proof (cases "epoch_body w rank x s")
      case (Inl y)
      with Cons.prems have "epoch_body w rank x s = Inl (e, s')" by simp
      then show ?thesis by (rule raises_onlyD [OF raises_only_epoch_body])
    next
      case (Inr s1)
      with Cons.prems have "epoch_loop es w rank s1 = Inl (e, s')"
        by (simp split: if_splits)
      then show ?thesis by (rule Cons.IH)
    qed
  qed
  then show ?thesis by (auto simp: raises_only_def)
qed

lemma raises_only_fold_epochs: "raises_only not_insufficient (fold_epochs w a rank)"
  unfolding fold_epochs_def
  by (intro raises_only_intros raises_only_epoch_loop)


lemma raises_only_dtms_check:
  "raises_only not_insufficient
     (case d of
        Some (PyList, dtms) \<Rightarrow>
          if \<not> (length xs = length ys \<and> length ys = length dtms)
          then raise (ValueError m)
          else skip
      | _ \<Rightarrow> skip)"
  by (auto simp: raises_only_skip raises_only_raise not_insufficient_simps
           split: option.splits seq_kind.splits)

lemma raises_only_fold_setup:
  assumes "\<not> int (length (val_images sp)) < world_size"
  shows "raises_only not_insufficient (fold_setup w a rank world_size fold_id sp)"
  unfolding fold_setup_def
  apply (intro raises_only_intros raises_only_raise not_insufficient_simps
               raises_only_dtms_check)
  using assms
      apply (simp_all add: raises_only_def raise_def skip_def emit_def not_insufficient_simps
                      split: option.splits)
  done

lemma sample_split_data: "split_data sample_world sample_args 0 = Inr sample_split"
  by (simp add: split_data_def sample_world_def sample_args_def sample_split_def take_rows_def)


text \<open>
  Claim C5.  In every fold whose split succeeds, \<^verbatim>\<open>InsufficientValidationSetError\<close> is
  raised if and only if the validation subset is strictly smaller than \<^verbatim>\<open>world_size\<close>: if
  it is smaller, the fold raises it with the two sizes and with the frame as it found it,
  so before any loader exists; if it is not (equality included), nothing the fold does
  raises it.
\<close>

theorem insufficient_validation_set_iff:
  assumes "split_data w a fold_id = Inr sp"
  shows "(int (length (val_images sp)) < world_size \<longrightarrow>
            train_fold w a rank world_size fold_id s =
              Inl (InsufficientValidationSetError (int (length (val_images sp))) world_size, s))
       \<and> (\<not> int (length (val_images sp)) < world_size \<longrightarrow>
            (\<forall>v n. raised (train_fold w a rank world_size fold_id s)
                      \<noteq> Some (InsufficientValidationSetError v n)))"
proof (intro conjI impI allI)
  assume "int (length (val_images sp)) < world_size"
  then show "train_fold w a rank world_size fold_id s =
              Inl (InsufficientValidationSetError (int (length (val_images sp))) world_size, s)"
    using assms by (simp add: train_fold_def fold_setup_def seq_def raise_def)
next
  fix v n
  assume ge: "\<not> int (length (val_images sp)) < world_size"
  have ro: "raises_only not_insufficient
          (block [fold_setup w a rank world_size fold_id sp, fold_epochs w a rank])"
    by (intro raises_only_intros raises_only_fold_setup [OF ge] raises_only_fold_epochs)
  show "raised (train_fold w a rank world_size fold_id s)
               \<noteq> Some (InsufficientValidationSetError v n)"
  proof
    assume r: "raised (train_fold w a rank world_size fold_id s)
                 = Some (InsufficientValidationSetError v n)"
    then obtain s' where
      "block [fold_setup w a rank world_size fold_id sp, fold_epochs w a rank] s
         = Inl (InsufficientValidationSetError v n, s')"
      using assms by (auto simp: train_fold_def raised_def split: sum.splits)
    from raises_onlyD [OF ro this] show False
      by (simp add: not_insufficient_simps)
  qed
qed

text \<open>The boundary: two validation images, for three workers and for two.\<close>

theorem insufficient_validation_set_iff_witness:
  "train_fold sample_world sample_args 0 3 0 (initial_frame sample_args) =
     Inl (InsufficientValidationSetError 2 3, initial_frame sample_args)
   \<and> (\<forall>v n. raised (train_fold sample_world sample_args 0 2 0 (initial_frame sample_args))
              \<noteq> Some (InsufficientValidationSetError v n))"
  using insufficient_validation_set_iff [OF sample_split_data, of 3 0 "initial_frame sample_args"]
        insufficient_validation_set_iff [OF sample_split_data, of 2 0 "initial_frame sample_args"]
  by (simp add: sample_split_def)


section \<open>The split of a fold\<close>

text \<open>
  Claim C8.  For every fold the split is determined by the seed and the ordered path
  lists: two performances of \<^verbatim>\<open>split_data\<close> (lines 256-303) that agree on \<^verbatim>\<open>seed_val\<close>, on
  the validation fraction, on \<^verbatim>\<open>use_dtms\<close>, on the library's \<^verbatim>\<open>train_test_split\<close> and on
  the fold's ordered lists of image and label paths (and of distance-map paths when they
  are used) end alike, with the same training and validation partitions.  The two may
  differ in everything else: the other arguments, the fold's number, the data frame and
  the rest of the world.
\<close>

theorem split_is_deterministic:
  assumes "seed_val a = seed_val a'" and "val_percent a = val_percent a'"
    and "use_dtms a = use_dtms a'"
    and "train_test_split w = train_test_split w'"
    and "fold_paths w fold_id ''images'' = fold_paths w' fold_id' ''images''"
    and "fold_paths w fold_id ''labels'' = fold_paths w' fold_id' ''labels''"
    and "use_dtms a \<longrightarrow> fold_paths w fold_id ''dtms'' = fold_paths w' fold_id' ''dtms''"
  shows "split_data w a fold_id = split_data w' a' fold_id'"
proof (cases "use_dtms a")
  case True
  with assms(3) have u: "use_dtms a = True" "use_dtms a' = True" by simp_all
  from assms(7) True
  have d: "fold_paths w fold_id ''dtms'' = fold_paths w' fold_id' ''dtms''" by simp
  show ?thesis
    unfolding split_data_def Let_def u if_True
    using assms(1,2,4,5,6) d unfolding fold_paths_def train_ids_def
    by (simp only:)
next
  case False
  with assms(3) have u: "use_dtms a = False" "use_dtms a' = False" by simp_all
  show ?thesis
    unfolding split_data_def Let_def u if_False
    using assms(1,2,4,5,6) unfolding fold_paths_def train_ids_def
    by (simp only:)
qed

text \<open>
  Two worlds and two argument records that differ in the data frame, the fold, the batch
  size, the loss and the number of epochs, and give the fold the same ordered paths.
\<close>

theorem split_is_deterministic_witness:
  "split_data sample_world sample_args 0 = split_data other_world other_args 5
   \<and> split_data other_world other_args 5 = Inr sample_split
   \<and> batch_size sample_args \<noteq> batch_size other_args
   \<and> training_paths_dataframe sample_world \<noteq> training_paths_dataframe other_world"
proof -
  have "split_data sample_world sample_args 0 = split_data other_world other_args 5"
    by (rule split_is_deterministic)
       (simp_all add: fold_paths_def train_ids_def sample_world_def other_world_def
          sample_args_def other_args_def)
  then show ?thesis
    using sample_split_data
    by (simp add: sample_world_def other_world_def sample_args_def other_args_def)
qed

section \<open>Boundary losses without distance maps\<close>

lemma sample_split_data_bl: "split_data sample_world bl_args 0 = Inr sample_split"
  by (simp add: split_data_def sample_world_def sample_args_def bl_args_def sample_split_def
        take_rows_def)

lemma bl_args_fields:
  "folds bl_args = [0]" "use_dtms bl_args = False" "batch_size bl_args = 1"
  "steps_per_epoch bl_args = None" "loss bl_args = ''bl''" "model bl_args = ''nnunet''"
  "epochs bl_args = 2" "amp bl_args = False"
  by (simp_all add: bl_args_def sample_args_def)


text \<open>
  Claim C4 says that a boundary loss without distance maps fails with a
  \<^verbatim>\<open>ConfigurationError\<close> before any loader is built.  In the sample world the worker
  raises \<^verbatim>\<open>ValueError\<close>, and both loaders and the loss function exist by then.
\<close>

theorem boundary_loss_fails_after_loaders:
  "raised (run_train sample_world bl_args 0 1) = Some (ValueError (use_dtms_message ''bl''))
   \<and> events (run_train sample_world bl_args 0 1) =
       [InitProcessGroup 0 1, CudaSetDevice 0, ConsolePrint ''Starting training'',
        GetTrainingDataset [''images/p3'', ''images/p4''] [''labels/p3'', ''labels/p4'']
          None 1,
        GetValidationDataset [''images/p1'', ''images/p2''] [''labels/p1'', ''labels/p2''],
        GetLoss ''bl'']"
  by (simp add: run_train_def train_def train_fold_def sample_split_data_bl fold_setup_def
        seq_def raise_def skip_def emit_def raised_def events_def initial_frame_def
        bl_args_fields sample_split_def)

text \<open>
  Claim C4 as amended.  With \<^verbatim>\<open>bl\<close>, \<^verbatim>\<open>hdl\<close> or \<^verbatim>\<open>gsl\<close> selected and \<^verbatim>\<open>use_dtms\<close> off, a
  fold whose split succeeds with at least \<^verbatim>\<open>world_size\<close> validation images (and with
  \<^verbatim>\<open>world_size\<close> and, where the steps per epoch are still to be computed, \<^verbatim>\<open>batch_size\<close>
  different from 0) raises \<^verbatim>\<open>ValueError\<close> with the message of line 362.  At that point the
  fold has built the training loader, the validation loader and the loss function, and
  nothing else: no model, no optimizer, no training step.
\<close>

theorem boundary_loss_without_dtms:
  assumes "loss a \<in> {''bl'', ''hdl'', ''gsl''}" and "\<not> use_dtms a"
    and "split_data w a fold_id = Inr sp"
    and "world_size \<le> int (length (val_images sp))" and "world_size \<noteq> 0"
    and "steps_per_epoch_attr s = None \<longrightarrow> batch_size a \<noteq> 0"
  shows "\<exists>s'. train_fold w a rank world_size fold_id s =
                 Inl (ValueError (use_dtms_message (loss a)), s')
            \<and> trace s' = trace s @
                 [GetTrainingDataset (train_images sp) (train_labels sp)
                    (map_option snd (train_dtms sp)) (batch_size a div world_size),
                  GetValidationDataset (val_images sp) (val_labels sp),
                  GetLoss (loss a)]"
proof -
  from assms(1) have l: "loss a \<in> set [''bl'', ''hdl'', ''gsl'']" by simp
  have v: "\<not> int (length (val_images sp)) < world_size" using assms(4) by simp
  show ?thesis
    using assms(2,3,5,6) l v
    by (cases "steps_per_epoch_attr s")
       (simp_all add: train_fold_def fold_setup_def seq_def raise_def skip_def emit_def
          del: set_simps)
qed

theorem boundary_loss_without_dtms_witness:
  "\<exists>s'. train_fold sample_world bl_args 0 1 0 (initial_frame bl_args) =
           Inl (ValueError (use_dtms_message ''bl''), s')
       \<and> trace s' =
           [GetTrainingDataset [''images/p3'', ''images/p4''] [''labels/p3'', ''labels/p4'']
              None 1,
            GetValidationDataset [''images/p1'', ''images/p2''] [''labels/p1'', ''labels/p2''],
            GetLoss ''bl'']"
  using boundary_loss_without_dtms [OF _ _ sample_split_data_bl, of 1 "initial_frame bl_args" 0]
  by (simp add: bl_args_def sample_args_def sample_split_def initial_frame_def)

section \<open>\<^verbatim>\<open>preprocess_dataset\<close> without cropping\<close>

lemma read_only_when_crop_loop:
  "ReadFgBboxes \<in> set (pre_events (patient_loop fs np i ps s)) \<Longrightarrow>
     ReadFgBboxes \<in> set (pre_trace s) \<or> crop_to_fg (config_json fs)"
proof (induction ps arbitrary: i s)
  case Nil
  then show ?case by (simp add: pre_events_def)
next
  case (Cons p ps)
  show ?case
  proof (cases "preprocess_patient fs np i p s")
    case (Inl x)
    with Cons.prems show ?thesis
      by (auto simp: pre_events_def preprocess_patient_def pre_emit_def Let_def
               split: if_splits option.splits)
  next
    case (Inr s')
    with Cons.prems have "ReadFgBboxes \<in> set (pre_events (patient_loop fs np (Suc i) ps s'))"
      by simp
    from Cons.IH [OF this] Inr show ?thesis
      by (auto simp: preprocess_patient_def pre_emit_def Let_def
               split: if_splits option.splits)
  qed
qed

lemma read_only_when_crop:
  assumes "ReadFgBboxes \<in> set (pre_events (preprocess_dataset fs np))"
  shows "crop_to_fg (config_json fs)"
proof -
  let ?s0 = "\<lparr>pre_trace =
                  (if modality (config_json fs) \<noteq> ''mr'' \<and> use_n4_bias_correction (config_json fs)
                   then [Warn] else [])
                  @ [CreateEmptyDir ''images'', CreateEmptyDir ''labels'', PrintPreprocessing,
                     GetProgressBar
                       (if np then ''Converting nifti to npy'' else ''Preprocessing'')],
                fg_bboxes = None\<rparr>"
  from assms have "ReadFgBboxes \<in> set (pre_events (patient_loop fs np 0 (train_paths_csv fs) ?s0))"
    by (auto simp: preprocess_dataset_def Let_def pre_events_def pre_emit_def split: sum.splits)
  from read_only_when_crop_loop [OF this] show ?thesis by simp
qed

text \<open>
  Claim C10.  With \<^verbatim>\<open>args.no_preprocess\<close> false and \<^verbatim>\<open>config["crop_to_fg"]\<close> false, and at
  least one patient, \<^verbatim>\<open>preprocess_dataset\<close> raises \<^verbatim>\<open>UnboundLocalError\<close> for \<^verbatim>\<open>fg_bboxes\<close>
  and never calls \<^verbatim>\<open>preprocess_example\<close>; and \<^verbatim>\<open>fg_bboxes.csv\<close> is read only when
  \<^verbatim>\<open>crop_to_fg\<close> is true.
\<close>

theorem unbound_fg_bboxes:
  "(\<not> no_preprocess \<and> \<not> crop_to_fg (config_json fs) \<and> train_paths_csv fs \<noteq> [] \<longrightarrow>
      pre_raised (preprocess_dataset fs no_preprocess) = Some (UnboundLocalError ''fg_bboxes'')
      \<and> \<not> list_ex is_preprocess_example (pre_events (preprocess_dataset fs no_preprocess)))
   \<and> (ReadFgBboxes \<in> set (pre_events (preprocess_dataset fs no_preprocess)) \<longrightarrow>
        crop_to_fg (config_json fs))"
proof (intro conjI impI)
  assume a: "\<not> no_preprocess \<and> \<not> crop_to_fg (config_json fs) \<and> train_paths_csv fs \<noteq> []"
  then show "pre_raised (preprocess_dataset fs no_preprocess)
               = Some (UnboundLocalError ''fg_bboxes'')"
    by (cases "train_paths_csv fs")
       (simp_all add: preprocess_dataset_def preprocess_patient_def pre_raised_def Let_def)
  from a show "\<not> list_ex is_preprocess_example (pre_events (preprocess_dataset fs no_preprocess))"
    by (cases "train_paths_csv fs")
       (simp_all add: preprocess_dataset_def preprocess_patient_def pre_events_def
          is_preprocess_example_def Let_def)
next
  assume "ReadFgBboxes \<in> set (pre_events (preprocess_dataset fs no_preprocess))"
  then show "crop_to_fg (config_json fs)" by (rule read_only_when_crop)
qed

theorem unbound_fg_bboxes_witness:
  "pre_raised (preprocess_dataset sample_files False) = Some (UnboundLocalError ''fg_bboxes'')
   \<and> \<not> list_ex is_preprocess_example (pre_events (preprocess_dataset sample_files False))
   \<and> ReadFgBboxes \<in> set (pre_events (preprocess_dataset cropping_files False))
   \<and> crop_to_fg (config_json cropping_files)"
proof -
  have r: "ReadFgBboxes \<in> set (pre_events (preprocess_dataset cropping_files False))"
    by (simp add: preprocess_dataset_def preprocess_patient_def pre_events_def pre_emit_def
          cropping_files_def sample_files_def Let_def)
  show ?thesis
    using r unbound_fg_bboxes [of False sample_files] unbound_fg_bboxes [of False cropping_files]
    by (simp add: sample_files_def)
qed

section \<open>The epoch loop as it stands\<close>

lemma seq_skip: "seq c skip = c"
  by (rule ext) (simp add: seq_def skip_def split: sum.splits)

lemma events_last_frame: "events r = trace (last_frame r)"
  by (simp add: events_def last_frame_def split: sum.splits prod.splits)

lemma dump_run_refl: "patch_counter s \<le> 50 \<Longrightarrow> dump_run s (Inr s) []"
  by (simp add: dump_run_def last_frame_def)

lemma dump_run_prepend:
  assumes "dump_run s2 r evs" and "trace s2 = trace s @ pre"
    and "patch_counter s2 = patch_counter s" and "list_all patch_dump_event pre"
    and "count_list pre TrainLoaderNext = 0"
  shows "dump_run s r (pre @ evs)"
proof (cases r)
  case (Inl x)
  with assms show ?thesis by (simp add: dump_run_def)
next
  case (Inr s')
  with assms show ?thesis
    by (auto simp: dump_run_def)
qed

lemma dump_run_trans:
  assumes "dump_run s (Inr s1) evs1" and "dump_run s1 r evs2" and "patch_counter s1 < 50 \<or> evs2 = []"
  shows "dump_run s r (evs1 @ evs2)"
proof (cases r)
  case (Inl x)
  with assms show ?thesis by (simp add: dump_run_def last_frame_def)
next
  case (Inr s')
  show ?thesis
  proof (cases "evs2 = []")
    case True
    with assms Inr show ?thesis by (auto simp: dump_run_def last_frame_def)
  next
    case False
    with assms(3) have lt: "patch_counter s1 < 50" by simp
    have "\<exists>pre j. evs1 @ evs2 = pre @ [WriteLabelPatch 49 j]" if "50 \<le> patch_counter s'"
    proof -
      from assms(2) Inr lt that obtain pre j where "evs2 = pre @ [WriteLabelPatch 49 j]"
        by (auto simp: dump_run_def)
      then have "evs1 @ evs2 = (evs1 @ pre) @ [WriteLabelPatch 49 j]" by simp
      then show ?thesis by blast
    qed
    with assms(1,2) Inr show ?thesis
      by (simp add: dump_run_def last_frame_def)
  qed
qed

lemma dump_patch_Inr:
  assumes "dump_patch w s = Inr s'"
  shows "patch_counter s' = patch_counter s + 1
       \<and> trace s' = trace s @
           [TrainLoaderNext, PrintShape (image_shape (train_loader_next w (trace s))),
            WriteImagePatch (patch_counter s)
              (nat (patch_counter s mod int (fst (image_shape (train_loader_next w (trace s)))))) 0]
           @ (if 1 < snd (image_shape (train_loader_next w (trace s)))
              then [WriteImagePatch (patch_counter s)
                      (nat (patch_counter s
                             mod int (fst (image_shape (train_loader_next w (trace s)))))) 1]
              else [])
           @ [WriteLabelPatch (patch_counter s)
                (nat (patch_counter s mod int (fst (label_shape (train_loader_next w (trace s))))))]"
  using assms
  by (auto simp: dump_patch_def Let_def seq_def skip_def emit_def raise_def split: if_splits)

lemma dump_patch_Inl:
  assumes "dump_patch w s = Inl (e, s')"
  shows "patch_counter s' = patch_counter s
       \<and> (\<exists>evs. trace s' = trace s @ TrainLoaderNext # evs
              \<and> list_all patch_dump_event evs \<and> count_list evs TrainLoaderNext = 0)"
  using assms
  by (auto simp: dump_patch_def Let_def seq_def skip_def emit_def raise_def patch_dump_event_def
           split: if_splits)

lemma dump_run_dump_patch:
  assumes "patch_counter s < 50"
  shows "\<exists>evs. dump_run s (dump_patch w s) evs"
proof (cases "dump_patch w s")
  case (Inl x)
  obtain e s' where x: "x = (e, s')" by (cases x)
  from dump_patch_Inl [of w s e s'] Inl x obtain evs where
    "patch_counter s' = patch_counter s" "trace s' = trace s @ TrainLoaderNext # evs"
    "list_all patch_dump_event evs" "count_list evs TrainLoaderNext = 0"
    by auto
  with assms Inl x have "dump_run s (dump_patch w s) (TrainLoaderNext # evs)"
    by (simp add: dump_run_def last_frame_def patch_dump_event_def)
  then show ?thesis by blast
next
  case (Inr s')
  from dump_patch_Inr [OF Inr] obtain evs j where
    pc: "patch_counter s' = patch_counter s + 1" and
    tr: "trace s' = trace s @ evs" and
    ev: "list_all patch_dump_event evs" "count_list evs TrainLoaderNext = 1"
        "\<exists>pre. evs = pre @ [WriteLabelPatch (patch_counter s) j]"
    by (cases "1 < snd (image_shape (train_loader_next w (trace s)))")
       (auto simp: patch_dump_event_def)
  have "\<exists>pre j. evs = pre @ [WriteLabelPatch 49 j]" if "50 \<le> patch_counter s'"
  proof -
    from that pc assms have "patch_counter s = 49" by simp
    with ev(3) show ?thesis by auto
  qed
  with pc tr ev(1,2) assms Inr have "dump_run s (dump_patch w s) evs"
    by (simp add: dump_run_def last_frame_def)
  then show ?thesis by blast
qed

lemma dump_run_step_loop:
  assumes "patch_counter s \<le> 50"
  shows "\<exists>evs. dump_run s (step_loop n w s) evs"
  using assms
proof (induction n arbitrary: s)
  case 0
  then show ?case using dump_run_refl by auto
next
  case (Suc n)
  show ?case
  proof (cases "50 \<le> patch_counter s")
    case True
    with Suc.prems show ?thesis using dump_run_refl [of s] by auto
  next
    case False
    then have lt: "patch_counter s < 50" by simp
    from dump_run_dump_patch [OF lt] obtain evs1 where d1: "dump_run s (dump_patch w s) evs1"
      by blast
    show ?thesis
    proof (cases "dump_patch w s")
      case (Inl x)
      with d1 False show ?thesis by (auto simp: dump_run_def last_frame_def)
    next
      case (Inr s1)
      with d1 have le: "patch_counter s1 \<le> 50" by (simp add: dump_run_def)
      from Suc.IH [OF le] obtain evs2 where d2: "dump_run s1 (step_loop n w s1) evs2"
        by blast
      have "patch_counter s1 < 50 \<or> evs2 = []"
      proof (cases "patch_counter s1 < 50")
        case True
        then show ?thesis by simp
      next
        case False
        with d2 have "count_list evs2 TrainLoaderNext = 0" by (simp add: dump_run_def)
        moreover from False have "step_loop n w s1 = Inr s1" by (cases n) simp_all
        ultimately show ?thesis using d2 by (simp add: dump_run_def last_frame_def)
      qed
      with d1 d2 Inr have "dump_run s (step_loop n w s1) (evs1 @ evs2)"
        using dump_run_trans by simp
      with False Inr show ?thesis by auto
    qed
  qed
qed


lemma epoch_body_eq:
  "epoch_body w rank e s =
     (if rank = 0
      then (case steps_per_epoch_attr s of
              None \<Rightarrow> Inl (TypeError, s\<lparr>epoch := Some e, trace := trace s @ [ModelTrain]\<rparr>)
            | Some n \<Rightarrow>
                step_loop (nat n) w (s\<lparr>epoch := Some e, trace := trace s @ [ModelTrain]\<rparr>))
      else Inr (s\<lparr>epoch := Some e, trace := trace s @ [ModelTrain]\<rparr>))"
  by (simp add: epoch_body_def seq_skip seq_def emit_def raise_def skip_def
           split: option.splits)

lemma dump_run_epoch_body:
  assumes "patch_counter s < 50"
  shows "\<exists>evs. dump_run s (epoch_body w rank e s) evs"
proof -
  let ?s2 = "s\<lparr>epoch := Some e, trace := trace s @ [ModelTrain]\<rparr>"
  have pre: "dump_run s r ([ModelTrain] @ evs)" if "dump_run ?s2 r evs" for r evs
    using that by (rule dump_run_prepend) (simp_all add: patch_dump_event_def)
  show ?thesis
  proof (cases "rank = 0")
    case False
    from assms have "dump_run ?s2 (Inr ?s2) []" by (intro dump_run_refl) simp
    from pre [OF this] False show ?thesis by (auto simp: epoch_body_eq)
  next
    case True
    show ?thesis
    proof (cases "steps_per_epoch_attr s")
      case None
      from assms have "dump_run ?s2 (Inl (TypeError, ?s2)) []"
        by (simp add: dump_run_def last_frame_def)
      from pre [OF this] True None show ?thesis by (auto simp: epoch_body_eq)
    next
      case (Some n)
      from assms have "patch_counter ?s2 \<le> 50" by simp
      from dump_run_step_loop [OF this] obtain evs where
        "dump_run ?s2 (step_loop (nat n) w ?s2) evs" by blast
      from pre [OF this] True Some show ?thesis by (auto simp: epoch_body_eq)
    qed
  qed
qed

lemma dump_run_epoch_loop:
  assumes "patch_counter s < 50"
  shows "\<exists>evs. dump_run s (epoch_loop es w rank s) evs"
  using assms
proof (induction es arbitrary: s)
  case Nil
  then show ?case using dump_run_refl [of s] by auto
next
  case (Cons e es)
  from dump_run_epoch_body [OF Cons.prems] obtain evs1 where
    d1: "dump_run s (epoch_body w rank e s) evs1" by blast
  show ?case
  proof (cases "epoch_body w rank e s")
    case (Inl x)
    with d1 show ?thesis by auto
  next
    case (Inr s1)
    show ?thesis
    proof (cases "50 \<le> patch_counter s1")
      case True
      with d1 Inr show ?thesis by auto
    next
      case False
      then have lt: "patch_counter s1 < 50" by simp
      from Cons.IH [OF lt] obtain evs2 where d2: "dump_run s1 (epoch_loop es w rank s1) evs2"
        by blast
      from d1 Inr d2 lt have "dump_run s (epoch_loop es w rank s1) (evs1 @ evs2)"
        using dump_run_trans by simp
      with Inr False show ?thesis by auto
    qed
  qed
qed

lemma fold_epochs_eq:
  "fold_epochs w a rank s =
     (case epoch_loop (py_range (epochs a)) w rank (s\<lparr>patch_counter := 0\<rparr>) of
        Inl x \<Rightarrow> Inl x
      | Inr s1 \<Rightarrow> Inr (s1\<lparr>trace := trace s1 @ [SetTrace]\<rparr>))"
  by (simp add: fold_epochs_def seq_skip seq_def emit_def split: sum.splits)

lemma fold_epochs_run:
  "\<exists>evs. list_all patch_dump_event evs
       \<and> int (count_list evs TrainLoaderNext) \<le> 50
       \<and> (case fold_epochs w a rank s of
             Inl x \<Rightarrow> emitted s (fold_epochs w a rank s) = evs
           | Inr s' \<Rightarrow>
               emitted s (fold_epochs w a rank s) = evs @ [SetTrace]
               \<and> trace s' = trace s @ evs @ [SetTrace]
               \<and> patch_counter s' = int (count_list evs TrainLoaderNext)
               \<and> (50 \<le> patch_counter s' \<longrightarrow> (\<exists>pre j. evs = pre @ [WriteLabelPatch 49 j])))"
proof -
  let ?s0 = "s\<lparr>patch_counter := 0\<rparr>"
  let ?r = "epoch_loop (py_range (epochs a)) w rank ?s0"
  have "patch_counter ?s0 < 50" by simp
  from dump_run_epoch_loop [OF this] obtain evs where d: "dump_run ?s0 ?r evs" by blast
  show ?thesis
  proof (cases ?r)
    case (Inl x)
    obtain e s1 where x: "x = (e, s1)" by (cases x)
    from d Inl x show ?thesis
      by (intro exI [of _ evs])
         (simp add: fold_epochs_eq dump_run_def last_frame_def emitted_def events_def)
  next
    case (Inr s1)
    from d Inr show ?thesis
      by (intro exI [of _ evs])
         (simp add: fold_epochs_eq dump_run_def last_frame_def emitted_def events_def)
  qed
qed

lemma fold_epochs_patch_dump_events:
  "list_all patch_dump_event (emitted s (fold_epochs w a rank s))"
proof -
  from fold_epochs_run [where w = w and a = a and rank = rank and s = s] obtain evs where
    "list_all patch_dump_event evs"
    "case fold_epochs w a rank s of
       Inl x \<Rightarrow> emitted s (fold_epochs w a rank s) = evs
     | Inr s' \<Rightarrow> emitted s (fold_epochs w a rank s) = evs @ [SetTrace]
         \<and> trace s' = trace s @ evs @ [SetTrace]
         \<and> patch_counter s' = int (count_list evs TrainLoaderNext)
         \<and> (50 \<le> patch_counter s' \<longrightarrow> (\<exists>pre j. evs = pre @ [WriteLabelPatch 49 j]))"
    by blast
  then show ?thesis
    by (cases "fold_epochs w a rank s") (simp_all add: patch_dump_event_def)
qed

subsection \<open>The trace of the epoch loop, pass by pass\<close>

lemma read_dump_append:
  "read_dump pc (xs @ ys) = foldl dump_step (read_dump pc xs) ys"
  by (simp add: read_dump_def)

lemma read_dump_idle: "read_dump pc xs = Idle pc' \<Longrightarrow> read_dump pc (xs @ ys) = read_dump pc' ys"
  by (simp add: read_dump_def)

lemma dump_read_refl: "dump_read s (Inr s)"
  by (simp add: dump_read_def last_frame_def read_dump_def)

lemma dump_read_trans:
  assumes "dump_read s (Inr s1)" and "dump_read s1 r"
  shows "dump_read s r"
proof -
  from assms(1) obtain evs1 where
    t1: "trace s1 = trace s @ evs1" and
    r1: "read_dump (patch_counter s) evs1 = Idle (patch_counter s1)" and
    a1: "steps_per_epoch_attr s1 = steps_per_epoch_attr s"
    by (auto simp: dump_read_def last_frame_def)
  from assms(2) obtain evs2 where
    t2: "trace (last_frame r) = trace s1 @ evs2" and
    r2: "read_dump (patch_counter s1) evs2 \<noteq> Refused" and
    c2: "case r of
           Inl x \<Rightarrow> True
         | Inr s' \<Rightarrow> read_dump (patch_counter s1) evs2 = Idle (patch_counter s')
                    \<and> steps_per_epoch_attr s' = steps_per_epoch_attr s1"
    by (auto simp: dump_read_def)
  have rr: "read_dump (patch_counter s) (evs1 @ evs2) = read_dump (patch_counter s1) evs2"
    by (rule read_dump_idle [OF r1])
  have "trace (last_frame r) = trace s @ (evs1 @ evs2)
      \<and> read_dump (patch_counter s) (evs1 @ evs2) \<noteq> Refused
      \<and> (case r of
            Inl x \<Rightarrow> True
          | Inr s' \<Rightarrow> read_dump (patch_counter s) (evs1 @ evs2) = Idle (patch_counter s')
                     \<and> steps_per_epoch_attr s' = steps_per_epoch_attr s)"
    using t1 t2 r2 c2 a1 by (cases r) (simp_all add: rr)
  then show ?thesis unfolding dump_read_def by blast
qed

lemma dump_patch_attr:
  "dump_patch w s = Inr s' \<Longrightarrow> steps_per_epoch_attr s' = steps_per_epoch_attr s"
  by (auto simp: dump_patch_def Let_def seq_def skip_def emit_def raise_def split: if_splits)

lemma dump_patch_Inl_read:
  assumes "dump_patch w s = Inl (e, s')"
  shows "\<exists>evs. trace s' = trace s @ evs \<and> read_dump (patch_counter s) evs \<noteq> Refused"
proof -
  let ?d = "train_loader_next w (trace s)"
  let ?i = "nat (patch_counter s mod int (fst (image_shape ?d)))"
  from assms have
    "trace s' = trace s @ [TrainLoaderNext, PrintShape (image_shape ?d)]
     \<or> trace s' = trace s @ [TrainLoaderNext, PrintShape (image_shape ?d),
                              WriteImagePatch (patch_counter s) ?i 0]
          \<and> \<not> 1 < snd (image_shape ?d)
     \<or> trace s' = trace s @ [TrainLoaderNext, PrintShape (image_shape ?d),
                              WriteImagePatch (patch_counter s) ?i 0,
                              WriteImagePatch (patch_counter s) ?i 1]
          \<and> 1 < snd (image_shape ?d)"
    by (auto simp: dump_patch_def Let_def seq_def skip_def emit_def raise_def split: if_splits)
  then show ?thesis
  proof (elim disjE conjE)
    assume t: "trace s' = trace s @ [TrainLoaderNext, PrintShape (image_shape ?d)]"
    have "read_dump (patch_counter s) [TrainLoaderNext, PrintShape (image_shape ?d)] \<noteq> Refused"
      by (simp add: read_dump_def dump_step_def)
    with t show ?thesis by blast
  next
    assume t: "trace s' = trace s @ [TrainLoaderNext, PrintShape (image_shape ?d),
                              WriteImagePatch (patch_counter s) ?i 0]"
    have "read_dump (patch_counter s) [TrainLoaderNext, PrintShape (image_shape ?d),
                              WriteImagePatch (patch_counter s) ?i 0] \<noteq> Refused"
      by (simp add: read_dump_def dump_step_def)
    with t show ?thesis by blast
  next
    assume t: "trace s' = trace s @ [TrainLoaderNext, PrintShape (image_shape ?d),
                              WriteImagePatch (patch_counter s) ?i 0,
                              WriteImagePatch (patch_counter s) ?i 1]"
      and c: "1 < snd (image_shape ?d)"
    from c have "read_dump (patch_counter s) [TrainLoaderNext, PrintShape (image_shape ?d),
                              WriteImagePatch (patch_counter s) ?i 0,
                              WriteImagePatch (patch_counter s) ?i 1] \<noteq> Refused"
      by (simp add: read_dump_def dump_step_def)
    with t show ?thesis by blast
  qed
qed

lemma dump_read_dump_patch: "dump_read s (dump_patch w s)"
proof (cases "dump_patch w s")
  case (Inl x)
  obtain e s' where x: "x = (e, s')" by (cases x)
  from dump_patch_Inl_read [of w s e s'] Inl x obtain evs where
    "trace s' = trace s @ evs" "read_dump (patch_counter s) evs \<noteq> Refused" by auto
  with Inl x show ?thesis unfolding dump_read_def by (auto simp: last_frame_def)
next
  case (Inr s')
  let ?d = "train_loader_next w (trace s)"
  let ?i = "nat (patch_counter s mod int (fst (image_shape ?d)))"
  let ?j = "nat (patch_counter s mod int (fst (label_shape ?d)))"
  let ?evs = "[TrainLoaderNext, PrintShape (image_shape ?d),
               WriteImagePatch (patch_counter s) ?i 0]
              @ (if 1 < snd (image_shape ?d)
                 then [WriteImagePatch (patch_counter s) ?i 1] else [])
              @ [WriteLabelPatch (patch_counter s) ?j]"
  from dump_patch_Inr [OF Inr] have
    pc: "patch_counter s' = patch_counter s + 1" and tr: "trace s' = trace s @ ?evs"
    by simp_all
  have rd: "read_dump (patch_counter s) ?evs = Idle (patch_counter s + 1)"
    by (simp add: read_dump_def dump_step_def)
  from dump_patch_attr [OF Inr] pc tr rd Inr
  have "trace (last_frame (dump_patch w s)) = trace s @ ?evs
      \<and> read_dump (patch_counter s) ?evs \<noteq> Refused
      \<and> read_dump (patch_counter s) ?evs = Idle (patch_counter s')
      \<and> steps_per_epoch_attr s' = steps_per_epoch_attr s"
    by (simp add: last_frame_def)
  with Inr show ?thesis unfolding dump_read_def by (intro exI [of _ ?evs]) simp
qed

lemma dump_read_step_loop: "dump_read s (step_loop n w s)"
proof (induction n arbitrary: s)
  case 0
  show ?case by (simp add: dump_read_refl)
next
  case (Suc n)
  show ?case
  proof (cases "50 \<le> patch_counter s")
    case True
    then show ?thesis by (simp add: dump_read_refl)
  next
    case False
    show ?thesis
    proof (cases "dump_patch w s")
      case (Inl x)
      with dump_read_dump_patch [of s w] False show ?thesis by simp
    next
      case (Inr s1)
      with dump_read_dump_patch [of s w] have "dump_read s (Inr s1)" by simp
      from dump_read_trans [OF this Suc.IH [of s1]] False Inr show ?thesis by simp
    qed
  qed
qed

lemma dump_read_epoch_body: "dump_read s (epoch_body w rank e s)"
proof -
  let ?s2 = "s\<lparr>epoch := Some e, trace := trace s @ [ModelTrain]\<rparr>"
  have "read_dump (patch_counter s) [ModelTrain] = Idle (patch_counter s)"
    by (simp add: read_dump_def dump_step_def)
  then have a: "dump_read s (Inr ?s2)"
    unfolding dump_read_def by (intro exI [of _ "[ModelTrain]"]) (simp add: last_frame_def)
  have b: "dump_read s (Inl (TypeError, ?s2))"
    unfolding dump_read_def
    by (intro exI [of _ "[ModelTrain]"]) (simp add: last_frame_def read_dump_def dump_step_def)
  have c: "dump_read s (step_loop n w ?s2)" for n
    by (rule dump_read_trans [OF a dump_read_step_loop])
  from a b c show ?thesis by (simp add: epoch_body_eq split: option.splits)
qed

lemma dump_read_epoch_loop: "dump_read s (epoch_loop es w rank s)"
proof (induction es arbitrary: s)
  case Nil
  show ?case by (simp add: dump_read_refl)
next
  case (Cons e es)
  show ?case
  proof (cases "epoch_body w rank e s")
    case (Inl x)
    with dump_read_epoch_body [of s w rank e] show ?thesis by simp
  next
    case (Inr s1)
    with dump_read_epoch_body [of s w rank e] have a: "dump_read s (Inr s1)" by simp
    from dump_read_trans [OF a Cons.IH [of s1]] a Inr show ?thesis by simp
  qed
qed

lemma fold_epochs_read:
  "read_dump 0 (emitted s (fold_epochs w a rank s)) \<noteq> Refused
   \<and> (\<forall>s'. fold_epochs w a rank s = Inr s' \<longrightarrow>
         read_dump 0 (emitted s (Inr s')) = Trapped (patch_counter s'))"
proof -
  let ?s0 = "s\<lparr>patch_counter := 0\<rparr>"
  let ?r = "epoch_loop (py_range (epochs a)) w rank ?s0"
  note d = dump_read_epoch_loop [of ?s0 "py_range (epochs a)" w rank]
  show ?thesis
  proof (cases ?r)
    case (Inl x)
    obtain e s1 where x: "x = (e, s1)" by (cases x)
    from d Inl x obtain evs where "trace s1 = trace s @ evs" "read_dump 0 evs \<noteq> Refused"
      by (auto simp: dump_read_def last_frame_def)
    with Inl x show ?thesis
      by (simp add: fold_epochs_eq emitted_def events_def)
  next
    case (Inr s1)
    with d obtain evs where t: "trace s1 = trace s @ evs" and
      i: "read_dump 0 evs = Idle (patch_counter s1)"
      by (auto simp: dump_read_def last_frame_def)
    have "read_dump 0 (evs @ [SetTrace]) = Trapped (patch_counter s1)"
      by (simp add: read_dump_append i dump_step_def)
    with Inr t show ?thesis
      by (simp add: fold_epochs_eq emitted_def events_def)
  qed
qed

lemma step_loop_count:
  assumes "step_loop n w s = Inr s'" and "patch_counter s \<le> 50"
  shows "patch_counter s' = min 50 (patch_counter s + int n)"
  using assms
proof (induction n arbitrary: s)
  case 0
  then show ?case by simp
next
  case (Suc n)
  show ?case
  proof (cases "50 \<le> patch_counter s")
    case True
    with Suc.prems show ?thesis by simp
  next
    case False
    with Suc.prems obtain s1 where d: "dump_patch w s = Inr s1" and r: "step_loop n w s1 = Inr s'"
      by (auto split: sum.splits)
    from dump_patch_Inr [OF d] have pc: "patch_counter s1 = patch_counter s + 1" by simp
    with False have "patch_counter s1 \<le> 50" by simp
    from Suc.IH [OF r this] pc show ?thesis by simp
  qed
qed

lemma step_loop_attr:
  assumes "step_loop n w s = Inr s'"
  shows "steps_per_epoch_attr s' = steps_per_epoch_attr s"
  using dump_read_step_loop [of s n w] assms by (auto simp: dump_read_def)

lemma epoch_body_count:
  assumes "epoch_body w 0 e s = Inr s'" and "steps_per_epoch_attr s = Some m"
    and "patch_counter s \<le> 50"
  shows "patch_counter s' = min 50 (patch_counter s + int (nat m))
       \<and> steps_per_epoch_attr s' = Some m"
proof -
  let ?s2 = "s\<lparr>epoch := Some e, trace := trace s @ [ModelTrain]\<rparr>"
  from assms(1,2) have r: "step_loop (nat m) w ?s2 = Inr s'" by (simp add: epoch_body_eq)
  from assms(3) have "patch_counter ?s2 \<le> 50" by simp
  from step_loop_count [OF r this] step_loop_attr [OF r] assms(2) show ?thesis by simp
qed

lemma epoch_loop_count:
  assumes "epoch_loop es w 0 s = Inr s'" and "steps_per_epoch_attr s = Some m"
    and "patch_counter s < 50"
  shows "patch_counter s' = min 50 (patch_counter s + int (length es * nat m))"
  using assms
proof (induction es arbitrary: s)
  case Nil
  then show ?case by simp
next
  case (Cons e es)
  define k where "k = int (nat m)"
  define j where "j = int (length es * nat m)"
  have j0: "0 \<le> j" by (simp add: j_def)
  have len: "int (length (e # es) * nat m) = k + j"
    by (simp add: k_def j_def)
  from Cons.prems(1) obtain s1 where b: "epoch_body w 0 e s = Inr s1"
    by (auto split: sum.splits)
  from Cons.prems(3) have "patch_counter s \<le> 50" by simp
  from epoch_body_count [OF b Cons.prems(2) this] have
    pc: "patch_counter s1 = min 50 (patch_counter s + k)" and
    at: "steps_per_epoch_attr s1 = Some m" by (simp_all add: k_def)
  show ?case
  proof (cases "50 \<le> patch_counter s1")
    case True
    with Cons.prems(1) b have e: "s' = s1" by simp
    from True pc have "patch_counter s1 = 50" and "50 \<le> patch_counter s + k" by linarith+
    with j0 have "patch_counter s1 = min 50 (patch_counter s + (k + j))" by linarith
    with e have "patch_counter s' = min 50 (patch_counter s + (k + j))" by simp
    then show ?thesis by (simp only: len)
  next
    case False
    then have lt: "patch_counter s1 < 50" by simp
    from Cons.prems(1) b False have r: "epoch_loop es w 0 s1 = Inr s'" by simp
    from lt pc have pc1: "patch_counter s1 = patch_counter s + k" by linarith
    from Cons.IH [OF r at lt] have "patch_counter s' = min 50 (patch_counter s1 + j)"
      by (simp add: j_def)
    with pc1 have "patch_counter s' = min 50 (patch_counter s + (k + j))" by (simp add: add.assoc)
    then show ?thesis by (simp only: len)
  qed
qed

lemma fold_epochs_count:
  assumes "fold_epochs w a 0 s = Inr s'" and "steps_per_epoch_attr s = Some m"
  shows "patch_counter s' = min 50 (int (nat (epochs a) * nat m))"
proof -
  let ?s0 = "s\<lparr>patch_counter := 0\<rparr>"
  from assms(1) obtain s1 where
    r: "epoch_loop (py_range (epochs a)) w 0 ?s0 = Inr s1" and
    e: "s' = s1\<lparr>trace := trace s1 @ [SetTrace]\<rparr>"
    by (auto simp: fold_epochs_eq split: sum.splits)
  from assms(2) have at: "steps_per_epoch_attr ?s0 = Some m" by simp
  have "patch_counter ?s0 < 50" by simp
  from epoch_loop_count [OF r at this] e show ?thesis by (simp add: py_range_def)
qed

lemma dump_patch_total:
  assumes "well_shaped (train_loader_next w (trace s))"
  shows "\<exists>s'. dump_patch w s = Inr s'"
  using assms
  by (simp add: well_shaped_def dump_patch_def Let_def seq_def skip_def emit_def raise_def)

lemma step_loop_total:
  assumes "\<forall>h. well_shaped (train_loader_next w h)"
  shows "\<exists>s'. step_loop n w s = Inr s'"
proof (induction n arbitrary: s)
  case 0
  show ?case by simp
next
  case (Suc n)
  from assms have "well_shaped (train_loader_next w (trace s))" by simp
  from dump_patch_total [OF this] obtain s1 where "dump_patch w s = Inr s1" by blast
  with Suc.IH [of s1] show ?case by simp
qed

lemma epoch_body_total:
  assumes "\<forall>h. well_shaped (train_loader_next w h)" and "steps_per_epoch_attr s = Some m"
  shows "\<exists>s'. epoch_body w rank e s = Inr s' \<and> steps_per_epoch_attr s' = Some m"
proof (cases "rank = 0")
  case False
  with assms(2) show ?thesis by (simp add: epoch_body_eq)
next
  case True
  let ?s2 = "s\<lparr>epoch := Some e, trace := trace s @ [ModelTrain]\<rparr>"
  from step_loop_total [OF assms(1), of "nat m" ?s2] obtain s' where
    r: "step_loop (nat m) w ?s2 = Inr s'" by blast
  from step_loop_attr [OF r] assms(2) have "steps_per_epoch_attr s' = Some m" by simp
  with r True assms(2) show ?thesis by (simp add: epoch_body_eq)
qed

lemma epoch_loop_total:
  assumes "\<forall>h. well_shaped (train_loader_next w h)" and "steps_per_epoch_attr s = Some m"
  shows "\<exists>s'. epoch_loop es w rank s = Inr s'"
  using assms(2)
proof (induction es arbitrary: s)
  case Nil
  show ?case by simp
next
  case (Cons e es)
  from epoch_body_total [OF assms(1) Cons.prems, of rank e] obtain s1 where
    b: "epoch_body w rank e s = Inr s1" and at: "steps_per_epoch_attr s1 = Some m" by blast
  from Cons.IH [OF at] b show ?case by simp
qed

lemma fold_epochs_total:
  assumes "\<forall>h. well_shaped (train_loader_next w h)" and "steps_per_epoch_attr s \<noteq> None"
  shows "\<exists>s'. fold_epochs w a rank s = Inr s'"
proof -
  from assms(2) obtain m where "steps_per_epoch_attr s = Some m" by auto
  then have "steps_per_epoch_attr (s\<lparr>patch_counter := 0\<rparr>) = Some m" by simp
  from epoch_loop_total [OF assms(1) this] obtain s1 where
    "epoch_loop (py_range (epochs a)) w rank (s\<lparr>patch_counter := 0\<rparr>) = Inr s1" by blast
  then show ?thesis by (simp add: fold_epochs_eq)
qed

lemma dump_step_Refused: "dump_step Refused e = Refused"
  by (simp add: dump_step_def)

lemma dump_step_Trapped: "dump_step (Trapped c) e = Refused"
  by (simp add: dump_step_def)

lemma dump_step_Idle:
  "dump_step (Idle c) e \<noteq> Refused \<Longrightarrow>
     (e = ModelTrain \<and> dump_step (Idle c) e = Idle c)
     \<or> (e = TrainLoaderNext \<and> dump_step (Idle c) e = Pulled c)
     \<or> (e = SetTrace \<and> dump_step (Idle c) e = Trapped c)"
  by (cases e) (simp_all add: dump_step_def)

lemma dump_step_Pulled:
  "dump_step (Pulled c) e \<noteq> Refused \<Longrightarrow> \<exists>sh. dump_step (Pulled c) e = Shaped c sh"
  by (cases e) (simp_all add: dump_step_def)

lemma dump_step_Shaped:
  "dump_step (Shaped c sh) e \<noteq> Refused \<Longrightarrow>
     \<exists>i. e = WriteImagePatch c i 0 \<and> dump_step (Shaped c sh) e = ImageWritten c sh"
  by (cases e) (simp_all add: dump_step_def split: if_splits)

lemma dump_step_ImageWritten:
  "dump_step (ImageWritten c sh) e \<noteq> Refused \<Longrightarrow>
     dump_step (ImageWritten c sh) e = SecondImageWritten c
     \<or> (\<exists>j. e = WriteLabelPatch c j \<and> dump_step (ImageWritten c sh) e = Idle (c + 1))"
  by (cases e) (simp_all add: dump_step_def split: if_splits)

lemma dump_step_SecondImageWritten:
  "dump_step (SecondImageWritten c) e \<noteq> Refused \<Longrightarrow>
     \<exists>j. e = WriteLabelPatch c j \<and> dump_step (SecondImageWritten c) e = Idle (c + 1)"
  by (cases e) (simp_all add: dump_step_def split: if_splits)

lemma read_dump_written:
  "read_dump pc evs \<noteq> Refused \<Longrightarrow>
   \<exists>c. pc \<le> c
     \<and> (read_dump pc evs = Idle c \<or> read_dump pc evs = Pulled c
        \<or> read_dump pc evs = Trapped c
        \<or> (\<exists>sh. read_dump pc evs = Shaped c sh)
        \<or> ((\<exists>sh. read_dump pc evs = ImageWritten c sh)
             \<or> read_dump pc evs = SecondImageWritten c)
           \<and> (\<exists>i. WriteImagePatch c i 0 \<in> set evs))
     \<and> (\<forall>p. pc \<le> p \<and> p < c \<longrightarrow>
           (\<exists>i. WriteImagePatch p i 0 \<in> set evs) \<and> (\<exists>j. WriteLabelPatch p j \<in> set evs))"
proof (induction evs rule: rev_induct)
  case Nil
  show ?case by (simp add: read_dump_def)
next
  case (snoc e evs)
  let ?W = "\<lambda>c xs. \<forall>p. pc \<le> p \<and> p < c \<longrightarrow>
           (\<exists>i. WriteImagePatch p i 0 \<in> set xs) \<and> (\<exists>j. WriteLabelPatch p j \<in> set xs)"
  have step: "read_dump pc (evs @ [e]) = dump_step (read_dump pc evs) e"
    by (simp add: read_dump_def)
  with snoc.prems have n: "read_dump pc evs \<noteq> Refused"
    by (auto simp: dump_step_Refused)
  from snoc.prems step have m: "dump_step (read_dump pc evs) e \<noteq> Refused" by simp
  from snoc.IH [OF n] obtain c where le: "pc \<le> c" and w: "?W c evs" and
    st: "read_dump pc evs = Idle c \<or> read_dump pc evs = Pulled c
        \<or> read_dump pc evs = Trapped c
        \<or> (\<exists>sh. read_dump pc evs = Shaped c sh)
        \<or> ((\<exists>sh. read_dump pc evs = ImageWritten c sh)
             \<or> read_dump pc evs = SecondImageWritten c)
           \<and> (\<exists>i. WriteImagePatch c i 0 \<in> set evs)"
    by blast
  from w have w': "?W c (evs @ [e])" by auto
  from st consider
      (idle) "read_dump pc evs = Idle c"
    | (pulled) "read_dump pc evs = Pulled c"
    | (trapped) "read_dump pc evs = Trapped c"
    | (shaped) sh where "read_dump pc evs = Shaped c sh"
    | (image) sh i where "read_dump pc evs = ImageWritten c sh" "WriteImagePatch c i 0 \<in> set evs"
    | (second) i where "read_dump pc evs = SecondImageWritten c" "WriteImagePatch c i 0 \<in> set evs"
    by blast
  then show ?case
  proof cases
    case idle
    with m dump_step_Idle [of c e] have
      "dump_step (read_dump pc evs) e = Idle c \<or> dump_step (read_dump pc evs) e = Pulled c
       \<or> dump_step (read_dump pc evs) e = Trapped c" by auto
    with step le w' show ?thesis by (intro exI [of _ c]) auto
  next
    case pulled
    with m dump_step_Pulled [of c e] obtain sh where
      "dump_step (read_dump pc evs) e = Shaped c sh" by auto
    with step le w' show ?thesis by (intro exI [of _ c]) auto
  next
    case trapped
    with m show ?thesis by (simp add: dump_step_Trapped)
  next
    case (shaped sh)
    with m dump_step_Shaped [of c sh e] obtain i where
      "e = WriteImagePatch c i 0" "dump_step (read_dump pc evs) e = ImageWritten c sh" by auto
    with step le w' show ?thesis by (intro exI [of _ c]) auto
  next
    case (image sh i)
    with m dump_step_ImageWritten [of c sh e] consider
        (a) "dump_step (read_dump pc evs) e = SecondImageWritten c"
      | (b) j where "e = WriteLabelPatch c j" "dump_step (read_dump pc evs) e = Idle (c + 1)"
      by auto
    then show ?thesis
    proof cases
      case a
      with step le w' image(2) show ?thesis by (intro exI [of _ c]) auto
    next
      case b
      have "?W (c + 1) (evs @ [e])"
      proof (intro allI impI)
        fix p assume p: "pc \<le> p \<and> p < c + 1"
        show "(\<exists>i. WriteImagePatch p i 0 \<in> set (evs @ [e]))
              \<and> (\<exists>j. WriteLabelPatch p j \<in> set (evs @ [e]))"
        proof (cases "p = c")
          case True
          with image(2) b(1) show ?thesis by auto
        next
          case False
          with p have "pc \<le> p \<and> p < c" by simp
          with w' show ?thesis by blast
        qed
      qed
      with step le b(2) show ?thesis by (intro exI [of _ "c + 1"]) simp
    qed
  next
    case (second i)
    with m dump_step_SecondImageWritten [of c e] obtain j where
      b: "e = WriteLabelPatch c j" "dump_step (read_dump pc evs) e = Idle (c + 1)" by auto
    have "?W (c + 1) (evs @ [e])"
    proof (intro allI impI)
      fix p assume p: "pc \<le> p \<and> p < c + 1"
      show "(\<exists>i. WriteImagePatch p i 0 \<in> set (evs @ [e]))
            \<and> (\<exists>j. WriteLabelPatch p j \<in> set (evs @ [e]))"
      proof (cases "p = c")
        case True
        with second(2) b(1) show ?thesis by auto
      next
        case False
        with p have "pc \<le> p \<and> p < c" by simp
        with w' show ?thesis by blast
      qed
    qed
    with step le b(2) show ?thesis by (intro exI [of _ "c + 1"]) simp
  qed
qed

lemma read_dump_Trapped_written:
  "read_dump pc evs = Trapped c \<Longrightarrow> pc \<le> p \<Longrightarrow> p < c \<Longrightarrow>
     (\<exists>i. WriteImagePatch p i 0 \<in> set evs) \<and> (\<exists>j. WriteLabelPatch p j \<in> set evs)"
  using read_dump_written [of pc evs] by auto

text \<open>
  Claim C9.  On rank 0 the fold's epoch loop (lines 703-746) performs no training step:
  all it emits are the events of dumping patches, and no optimizer update is among them.
  What it emits is read by \<^verbatim>\<open>read_dump\<close> without a refusal, so it is a sequence of complete
  passes: every batch pulled is followed by the print of its shape, by the image file of
  sample \<open>counter mod batch size\<close>, channel 0 (and channel 1 when the batch has one) and by
  the label file, all named after the patch counter, which is then one more; no batch
  is pulled without its files and no file is written without its batch.  The counter is
  set to 0 once per fold and never between epochs, so at the end it is the number of
  batches pulled in the fold, which is at most 50 and, when the number of steps per epoch
  is \<open>n\<close>, exactly the smaller of 50 and \<open>epochs * n\<close>; for every patch number below it an
  image file and a label file have been written.  A fold that ends normally ends in the
  debugger trap, entered from between two passes; when the counter has reached 50 the
  trap directly follows the label file of patch 49: both loops have been left.  When
  every batch has a sample and a channel the fold does end normally.  Last, one pass on
  its own: it writes the image and the label of the current counter and increments it.
\<close>

theorem rank0_epoch_loop_dumps_patches:
  "list_all patch_dump_event (emitted s (fold_epochs w a 0 s))
   \<and> \<not> patch_dump_event OptimizerStep \<and> \<not> patch_dump_event ScalerStep
   \<and> count_list (emitted s (fold_epochs w a 0 s)) TrainLoaderNext \<le> 50
   \<and> read_dump 0 (emitted s (fold_epochs w a 0 s)) \<noteq> Refused
   \<and> (\<forall>s'. fold_epochs w a 0 s = Inr s' \<longrightarrow>
         patch_counter s' = int (count_list (emitted s (Inr s')) TrainLoaderNext)
         \<and> read_dump 0 (emitted s (Inr s')) = Trapped (patch_counter s')
         \<and> last (trace s') = SetTrace
         \<and> (50 \<le> patch_counter s' \<longrightarrow>
              (\<exists>evs j. emitted s (Inr s') = evs @ [WriteLabelPatch 49 j, SetTrace]))
         \<and> (\<forall>n. steps_per_epoch_attr s = Some n \<longrightarrow>
              patch_counter s' = min 50 (int (nat (epochs a) * nat n)))
         \<and> (\<forall>p. 0 \<le> p \<and> p < patch_counter s' \<longrightarrow>
              (\<exists>i. WriteImagePatch p i 0 \<in> set (emitted s (Inr s')))
              \<and> (\<exists>j. WriteLabelPatch p j \<in> set (emitted s (Inr s')))))
   \<and> ((\<forall>h. well_shaped (train_loader_next w h)) \<and> steps_per_epoch_attr s \<noteq> None \<longrightarrow>
         (\<exists>s'. fold_epochs w a 0 s = Inr s'))
   \<and> (\<forall>s'. dump_patch w s = Inr s' \<longrightarrow>
         patch_counter s' = patch_counter s + 1
         \<and> (\<exists>i j. WriteImagePatch (patch_counter s) i 0 \<in> set (emitted s (Inr s'))
                \<and> WriteLabelPatch (patch_counter s) j \<in> set (emitted s (Inr s'))))"
proof -
  from fold_epochs_run [where w = w and a = a and rank = 0 and s = s] obtain evs where
    ev: "list_all patch_dump_event evs" "int (count_list evs TrainLoaderNext) \<le> 50" and
    c: "case fold_epochs w a 0 s of
          Inl x \<Rightarrow> emitted s (fold_epochs w a 0 s) = evs
        | Inr s' \<Rightarrow> emitted s (fold_epochs w a 0 s) = evs @ [SetTrace]
            \<and> trace s' = trace s @ evs @ [SetTrace]
            \<and> patch_counter s' = int (count_list evs TrainLoaderNext)
            \<and> (50 \<le> patch_counter s' \<longrightarrow> (\<exists>pre j. evs = pre @ [WriteLabelPatch 49 j]))"
    by blast
  note rd = fold_epochs_read [where w = w and a = a and rank = 0 and s = s]
  have p1: "list_all patch_dump_event (emitted s (fold_epochs w a 0 s))"
    by (rule fold_epochs_patch_dump_events)
  have p2: "\<not> patch_dump_event OptimizerStep" "\<not> patch_dump_event ScalerStep"
    by (simp_all add: patch_dump_event_def)
  have p3: "count_list (emitted s (fold_epochs w a 0 s)) TrainLoaderNext \<le> 50"
    using ev(2) c by (cases "fold_epochs w a 0 s") simp_all
  from rd have p4: "read_dump 0 (emitted s (fold_epochs w a 0 s)) \<noteq> Refused" by simp
  have p5: "patch_counter s' = int (count_list (emitted s (Inr s')) TrainLoaderNext)
         \<and> read_dump 0 (emitted s (Inr s')) = Trapped (patch_counter s')
         \<and> last (trace s') = SetTrace
         \<and> (50 \<le> patch_counter s' \<longrightarrow>
              (\<exists>evs j. emitted s (Inr s') = evs @ [WriteLabelPatch 49 j, SetTrace]))
         \<and> (\<forall>n. steps_per_epoch_attr s = Some n \<longrightarrow>
              patch_counter s' = min 50 (int (nat (epochs a) * nat n)))
         \<and> (\<forall>p. 0 \<le> p \<and> p < patch_counter s' \<longrightarrow>
              (\<exists>i. WriteImagePatch p i 0 \<in> set (emitted s (Inr s')))
              \<and> (\<exists>j. WriteLabelPatch p j \<in> set (emitted s (Inr s'))))"
    if r: "fold_epochs w a 0 s = Inr s'" for s'
  proof -
    from c r have "patch_counter s' = int (count_list (emitted s (Inr s')) TrainLoaderNext)"
      and "last (trace s') = SetTrace"
      and "50 \<le> patch_counter s' \<longrightarrow>
              (\<exists>evs j. emitted s (Inr s') = evs @ [WriteLabelPatch 49 j, SetTrace])"
      by auto
    moreover from rd r have tr: "read_dump 0 (emitted s (Inr s')) = Trapped (patch_counter s')"
      by simp
    moreover have "\<forall>p. 0 \<le> p \<and> p < patch_counter s' \<longrightarrow>
              (\<exists>i. WriteImagePatch p i 0 \<in> set (emitted s (Inr s')))
              \<and> (\<exists>j. WriteLabelPatch p j \<in> set (emitted s (Inr s')))"
      using read_dump_Trapped_written [OF tr] by blast
    moreover have "\<forall>n. steps_per_epoch_attr s = Some n \<longrightarrow>
              patch_counter s' = min 50 (int (nat (epochs a) * nat n))"
      using fold_epochs_count [OF r] by blast
    ultimately show ?thesis by blast
  qed
  have p6: "(\<forall>h. well_shaped (train_loader_next w h)) \<and> steps_per_epoch_attr s \<noteq> None \<longrightarrow>
         (\<exists>s'. fold_epochs w a 0 s = Inr s')"
    using fold_epochs_total [of w s a 0] by blast
  have p7: "patch_counter s' = patch_counter s + 1
         \<and> (\<exists>i j. WriteImagePatch (patch_counter s) i 0 \<in> set (emitted s (Inr s'))
                \<and> WriteLabelPatch (patch_counter s) j \<in> set (emitted s (Inr s')))"
    if "dump_patch w s = Inr s'" for s'
    using dump_patch_Inr [OF that] by (auto simp: emitted_def events_def)
  from p1 p2 p3 p4 p5 p6 p7 show ?thesis by blast
qed

lemma first_patch_dumped:
  "(case dump_patch sample_world (initial_frame dump_args) of
      Inl x \<Rightarrow> False
    | Inr s' \<Rightarrow> patch_counter s' = 1)"
  by code_simp

lemma sample_batches_well_shaped: "\<forall>h. well_shaped (train_loader_next sample_world h)"
  by (simp add: well_shaped_def sample_world_def)

lemma dump_args_frame:
  "steps_per_epoch_attr (initial_frame dump_args) = Some 30"
  "patch_counter (initial_frame dump_args) = 0" "epochs dump_args = 2"
  by (simp_all add: initial_frame_def dump_args_def sample_args_def)

text \<open>
  Two epochs of thirty steps: the fold ends in the trap, the 50th patch is written in the
  second epoch; and the first pass on fresh locals.
\<close>

theorem rank0_epoch_loop_dumps_patches_witness:
  "(\<exists>s'. fold_epochs sample_world dump_args 0 (initial_frame dump_args) = Inr s'
      \<and> patch_counter s' = 50
      \<and> count_list (emitted (initial_frame dump_args) (Inr s')) TrainLoaderNext = 50
      \<and> read_dump 0 (emitted (initial_frame dump_args) (Inr s')) = Trapped 50
      \<and> (\<exists>i j. WriteImagePatch 37 i 0 \<in> set (emitted (initial_frame dump_args) (Inr s'))
             \<and> WriteLabelPatch 37 j \<in> set (emitted (initial_frame dump_args) (Inr s')))
      \<and> last (trace s') = SetTrace
      \<and> (\<exists>evs j. emitted (initial_frame dump_args) (Inr s')
                    = evs @ [WriteLabelPatch 49 j, SetTrace]))
   \<and> (\<exists>s1 i j. dump_patch sample_world (initial_frame dump_args) = Inr s1
         \<and> patch_counter s1 = 1
         \<and> WriteImagePatch 0 i 0 \<in> set (emitted (initial_frame dump_args) (Inr s1))
         \<and> WriteLabelPatch 0 j \<in> set (emitted (initial_frame dump_args) (Inr s1)))"
proof -
  note t = rank0_epoch_loop_dumps_patches
         [where w = sample_world and a = dump_args and s = "initial_frame dump_args"]
  from t sample_batches_well_shaped dump_args_frame(1) obtain s' where
    r: "fold_epochs sample_world dump_args 0 (initial_frame dump_args) = Inr s'"
    by auto
  from t r dump_args_frame(1) have
    "patch_counter s' = min 50 (int (nat (epochs dump_args) * nat 30))" by blast
  then have pc: "patch_counter s' = 50" by (simp add: dump_args_frame)
  from first_patch_dumped obtain s1 where
    r1: "dump_patch sample_world (initial_frame dump_args) = Inr s1" and
    pc1: "patch_counter s1 = 1"
    by (cases "dump_patch sample_world (initial_frame dump_args)") simp_all
  from t r have
    a: "patch_counter s' = int (count_list (emitted (initial_frame dump_args) (Inr s')) TrainLoaderNext)"
    and b: "last (trace s') = SetTrace"
    and c: "50 \<le> patch_counter s' \<longrightarrow>
              (\<exists>evs j. emitted (initial_frame dump_args) (Inr s')
                    = evs @ [WriteLabelPatch 49 j, SetTrace])"
    and e: "read_dump 0 (emitted (initial_frame dump_args) (Inr s')) = Trapped (patch_counter s')"
    and f: "\<forall>p. 0 \<le> p \<and> p < patch_counter s' \<longrightarrow>
              (\<exists>i. WriteImagePatch p i 0 \<in> set (emitted (initial_frame dump_args) (Inr s')))
              \<and> (\<exists>j. WriteLabelPatch p j \<in> set (emitted (initial_frame dump_args) (Inr s')))"
    by blast+
  from t r1 have
    d: "\<exists>i j. WriteImagePatch (patch_counter (initial_frame dump_args)) i 0
                  \<in> set (emitted (initial_frame dump_args) (Inr s1))
              \<and> WriteLabelPatch (patch_counter (initial_frame dump_args)) j
                  \<in> set (emitted (initial_frame dump_args) (Inr s1))"
    by blast
  from a pc have a': "count_list (emitted (initial_frame dump_args) (Inr s')) TrainLoaderNext = 50"
    by simp
  from c pc have c': "\<exists>evs j. emitted (initial_frame dump_args) (Inr s')
                    = evs @ [WriteLabelPatch 49 j, SetTrace]" by simp
  from e pc have e': "read_dump 0 (emitted (initial_frame dump_args) (Inr s')) = Trapped 50"
    by simp
  from f pc have f': "\<exists>i j. WriteImagePatch 37 i 0 \<in> set (emitted (initial_frame dump_args) (Inr s'))
             \<and> WriteLabelPatch 37 j \<in> set (emitted (initial_frame dump_args) (Inr s'))"
    by auto
  from r pc a' b c' e' f' have first: "\<exists>s'. fold_epochs sample_world dump_args 0 (initial_frame dump_args) = Inr s'
      \<and> patch_counter s' = 50
      \<and> count_list (emitted (initial_frame dump_args) (Inr s')) TrainLoaderNext = 50
      \<and> read_dump 0 (emitted (initial_frame dump_args) (Inr s')) = Trapped 50
      \<and> (\<exists>i j. WriteImagePatch 37 i 0 \<in> set (emitted (initial_frame dump_args) (Inr s'))
             \<and> WriteLabelPatch 37 j \<in> set (emitted (initial_frame dump_args) (Inr s')))
      \<and> last (trace s') = SetTrace
      \<and> (\<exists>evs j. emitted (initial_frame dump_args) (Inr s')
                    = evs @ [WriteLabelPatch 49 j, SetTrace])" by blast
  from r1 pc1 d dump_args_frame(2) have second: "\<exists>s1 i j. dump_patch sample_world (initial_frame dump_args) = Inr s1
         \<and> patch_counter s1 = 1
         \<and> WriteImagePatch 0 i 0 \<in> set (emitted (initial_frame dump_args) (Inr s1))
         \<and> WriteLabelPatch 0 j \<in> set (emitted (initial_frame dump_args) (Inr s1))"
    by auto
  from first second show ?thesis by (rule conjI)
qed

section \<open>What \<^verbatim>\<open>train\<close> never reaches\<close>

lemma keepsD:
  "keeps quiet_frame c \<Longrightarrow> quiet_frame s \<Longrightarrow> quiet_frame (last_frame (c s))"
  by (simp add: keeps_def)

lemma keepsI:
  "(\<And>s. quiet_frame s \<Longrightarrow> quiet_frame (last_frame (c s))) \<Longrightarrow> keeps quiet_frame c"
  by (simp add: keeps_def)

lemma keeps_emit: "quiet e \<Longrightarrow> keeps quiet_frame (emit e)"
  by (simp add: keeps_def quiet_frame_def emit_def last_frame_def)

lemma keeps_skip: "keeps quiet_frame skip"
  by (simp add: keeps_def skip_def last_frame_def)

lemma keeps_raise: "keeps quiet_frame (raise e)"
  by (simp add: keeps_def raise_def last_frame_def)

lemma keeps_seq:
  assumes "keeps quiet_frame c" and "keeps quiet_frame d"
  shows "keeps quiet_frame (seq c d)"
proof (rule keepsI)
  fix s
  assume q: "quiet_frame s"
  from keepsD [OF assms(1) q] have qc: "quiet_frame (last_frame (c s))" .
  show "quiet_frame (last_frame (seq c d s))"
  proof (cases "c s")
    case (Inl x)
    with qc show ?thesis by (simp add: seq_def)
  next
    case (Inr s1)
    with qc have "quiet_frame s1" by (simp add: last_frame_def)
    from keepsD [OF assms(2) this] Inr show ?thesis by (simp add: seq_def)
  qed
qed

lemma keeps_block_Nil: "keeps quiet_frame (block [])"
  by (simp add: keeps_skip)

lemma keeps_block_Cons:
  "keeps quiet_frame c \<Longrightarrow> keeps quiet_frame (block cs) \<Longrightarrow> keeps quiet_frame (block (c # cs))"
  by (simp add: keeps_seq)

lemma keeps_if:
  "keeps quiet_frame c \<Longrightarrow> keeps quiet_frame d \<Longrightarrow> keeps quiet_frame (if b then c else d)"
  by simp

lemmas keeps_intros =
  keeps_block_Nil keeps_block_Cons keeps_if keeps_skip keeps_raise keeps_emit

lemma quiet_simps:
  "quiet (InitProcessGroup r n)" "quiet (CudaSetDevice r)" "quiet (ConsolePrint m)"
  "quiet (GetTrainingDataset xs ys zs b)" "quiet (GetValidationDataset xs ys)"
  "quiet (GetLoss l)" "quiet GetModel" "quiet ConfigurePretrainedModel"
  "quiet ConvertSyncBatchnorm" "quiet (ModelTo r)" "quiet (WrapDDP u)" "quiet GetOptimizer"
  "quiet GetLrSchedule" "quiet NewGradScaler" "quiet (NewSummaryWriter f)" "quiet ModelTrain"
  "quiet TrainLoaderNext" "quiet (PrintShape sh)" "quiet (WriteImagePatch pc i c)"
  "quiet (WriteLabelPatch pc i)" "quiet SetTrace" "quiet (AlphaScheduleCall ep)"
  "quiet ZeroGrad" "quiet Forward" "quiet Backward" "quiet ScaledBackward" "quiet Unscale"
  "quiet ClipGradNorm" "quiet OptimizerStep" "quiet ScalerStep" "quiet ScalerUpdate"
  "quiet LrSchedulerStep" "quiet (Reduce v)" "quiet (ProgressBarUpdate v)"
  "\<not> quiet Barrier" "\<not> quiet (TorchSave f)"
  by (simp_all add: quiet_def)



lemma keeps_train_step: "keeps quiet_frame (train_step w a)"
proof -
  have "keeps quiet_frame
          (\<lambda>s. emit Forward
                 (s\<lparr>loss_tensor := Some (compute_loss a (model_forward w (trace s)))\<rparr>))"
    by (simp add: keeps_def quiet_frame_def emit_def last_frame_def quiet_simps)
  then show ?thesis
    unfolding train_step_def by (intro keeps_intros quiet_simps)
qed

lemma keeps_reduce_loss: "keeps quiet_frame (reduce_loss w)"
  by (simp add: keeps_def reduce_loss_def quiet_frame_def emit_def raise_def last_frame_def
        quiet_simps split: option.splits)

lemma keeps_compute_alpha: "keeps quiet_frame compute_alpha"
  by (simp add: keeps_def compute_alpha_def quiet_frame_def emit_def raise_def last_frame_def
        quiet_simps split: option.splits)

lemma keeps_dump_patch: "keeps quiet_frame (dump_patch w)"
proof -
  have a: "keeps quiet_frame (\<lambda>s. Inr (s\<lparr>data := Some d\<rparr>))" for d
    by (simp add: keeps_def quiet_frame_def last_frame_def)
  have b: "keeps quiet_frame (\<lambda>s. Inr (s\<lparr>patch_counter := patch_counter s + 1\<rparr>))"
    by (simp add: keeps_def quiet_frame_def last_frame_def)
  have "quiet_frame (last_frame (dump_patch w s))" if "quiet_frame s" for s
    unfolding dump_patch_def Let_def
    by (rule keepsD [OF _ that]) (intro keeps_intros quiet_simps a b)
  then show ?thesis by (simp add: keeps_def)
qed


lemma keeps_step_loop: "keeps quiet_frame (step_loop n w)"
proof -
  have "quiet_frame (last_frame (step_loop n w s))" if "quiet_frame s" for s
    using that
  proof (induction n arbitrary: s)
    case 0
    then show ?case by (simp add: last_frame_def)
  next
    case (Suc n)
    from keepsD [OF keeps_dump_patch Suc.prems]
    have q: "quiet_frame (last_frame (dump_patch w s))" .
    show ?case
    proof (cases "dump_patch w s")
      case (Inl x)
      with q Suc.prems show ?thesis by (simp add: last_frame_def)
    next
      case (Inr s1)
      with q have "quiet_frame s1" by (simp add: last_frame_def)
      from Suc.IH [OF this] Inr Suc.prems show ?thesis by (simp add: last_frame_def)
    qed
  qed
  then show ?thesis by (simp add: keeps_def)
qed

lemma keeps_epoch_body: "keeps quiet_frame (epoch_body w rank e)"
proof -
  have "quiet_frame (last_frame (epoch_body w rank e s))" if "quiet_frame s" for s
  proof -
    let ?s2 = "s\<lparr>epoch := Some e, trace := trace s @ [ModelTrain]\<rparr>"
    from that have q2: "quiet_frame ?s2" by (simp add: quiet_frame_def quiet_simps)
    from keepsD [OF keeps_step_loop q2] q2 show ?thesis
      by (simp add: epoch_body_eq last_frame_def split: option.splits)
  qed
  then show ?thesis by (simp add: keeps_def)
qed

lemma keeps_epoch_loop: "keeps quiet_frame (epoch_loop es w rank)"
proof -
  have "quiet_frame (last_frame (epoch_loop es w rank s))" if "quiet_frame s" for s
    using that
  proof (induction es arbitrary: s)
    case Nil
    then show ?case by (simp add: last_frame_def)
  next
    case (Cons e es)
    from keepsD [OF keeps_epoch_body Cons.prems]
    have q: "quiet_frame (last_frame (epoch_body w rank e s))" .
    show ?case
    proof (cases "epoch_body w rank e s")
      case (Inl x)
      with q show ?thesis by (simp add: last_frame_def)
    next
      case (Inr s1)
      with q have q1: "quiet_frame s1" by (simp add: last_frame_def)
      from Cons.IH [OF q1] Inr q1 show ?thesis by (simp add: last_frame_def)
    qed
  qed
  then show ?thesis by (simp add: keeps_def)
qed

lemma keeps_fold_epochs: "keeps quiet_frame (fold_epochs w a rank)"
proof -
  have "keeps quiet_frame (\<lambda>s. Inr (s\<lparr>patch_counter := 0\<rparr>))"
    by (simp add: keeps_def quiet_frame_def last_frame_def)
  then show ?thesis
    unfolding fold_epochs_def by (intro keeps_intros quiet_simps keeps_epoch_loop)
qed

lemma keeps_dtms_check:
  "keeps quiet_frame
     (case d of
        Some (PyList, dtms) \<Rightarrow>
          if \<not> (length xs = length ys \<and> length ys = length dtms)
          then raise (ValueError m)
          else skip
      | _ \<Rightarrow> skip)"
  by (auto simp: keeps_skip keeps_raise split: option.splits seq_kind.splits)

lemma keeps_fold_setup: "keeps quiet_frame (fold_setup w a rank world_size fold_id sp)"
  unfolding fold_setup_def
  apply (intro keeps_intros quiet_simps keeps_dtms_check)
      apply (simp_all add: keeps_def quiet_frame_def last_frame_def raise_def skip_def emit_def
                      quiet_simps split: option.splits)
  done

lemma keeps_train_fold: "keeps quiet_frame (train_fold w a rank world_size fold_id)"
proof (rule keepsI)
  fix s
  assume q: "quiet_frame s"
  show "quiet_frame (last_frame (train_fold w a rank world_size fold_id s))"
  proof (cases "split_data w a fold_id")
    case (Inl e)
    with q show ?thesis by (simp add: train_fold_def raise_def last_frame_def)
  next
    case (Inr sp)
    have "keeps quiet_frame
            (block [fold_setup w a rank world_size fold_id sp, fold_epochs w a rank])"
      by (intro keeps_intros keeps_fold_setup keeps_fold_epochs)
    from keepsD [OF this q] Inr show ?thesis by (simp add: train_fold_def)
  qed
qed

lemma keeps_fold_loop: "keeps quiet_frame (fold_loop fs w a rank world_size)"
proof (rule keepsI)
  fix s
  assume "quiet_frame s"
  then show "quiet_frame (last_frame (fold_loop fs w a rank world_size s))"
  proof (induction fs arbitrary: s)
    case Nil
    then show ?case by (simp add: last_frame_def)
  next
    case (Cons f fs)
    from keepsD [OF keeps_train_fold Cons.prems]
    have q: "quiet_frame (last_frame (train_fold w a rank world_size f s))" .
    show ?case
    proof (cases "train_fold w a rank world_size f s")
      case (Inl x)
      with q show ?thesis by simp
    next
      case (Inr s1)
      with q have "quiet_frame s1" by (simp add: last_frame_def)
      from Cons.IH [OF this] Inr show ?thesis by simp
    qed
  qed
qed

lemma stopsD: "stops c \<Longrightarrow> quiet_frame s \<Longrightarrow> \<exists>e s'. c s = Inl (e, s') \<and> quiet_frame s'"
  by (simp add: stops_def)

lemma stops_seq_first:
  assumes "stops c"
  shows "stops (seq c d)"
  unfolding stops_def
proof (intro allI impI)
  fix s
  assume "quiet_frame s"
  from stopsD [OF assms this] obtain e s' where "c s = Inl (e, s')" "quiet_frame s'"
    by blast
  then show "\<exists>e s'. seq c d s = Inl (e, s') \<and> quiet_frame s'"
    by (simp add: seq_def)
qed

lemma stops_seq_second:
  assumes "keeps quiet_frame c" and "stops d"
  shows "stops (seq c d)"
  unfolding stops_def
proof (intro allI impI)
  fix s
  assume q: "quiet_frame s"
  from keepsD [OF assms(1) q] have qc: "quiet_frame (last_frame (c s))" .
  show "\<exists>e s'. seq c d s = Inl (e, s') \<and> quiet_frame s'"
  proof (cases "c s")
    case (Inl x)
    obtain e s' where "x = (e, s')" by (cases x)
    with Inl qc show ?thesis by (simp add: seq_def last_frame_def)
  next
    case (Inr s1)
    with qc have "quiet_frame s1" by (simp add: last_frame_def)
    from stopsD [OF assms(2) this] Inr show ?thesis by (simp add: seq_def)
  qed
qed

lemma stops_block_first: "stops c \<Longrightarrow> stops (block (c # cs))"
  by (simp add: stops_seq_first)

lemma stops_block_later: "keeps quiet_frame c \<Longrightarrow> stops (block cs) \<Longrightarrow> stops (block (c # cs))"
  by (simp add: stops_seq_second)

lemma stops_progress_bar:
  "stops (\<lambda>s. case pb s of
                None \<Rightarrow> raise (UnboundLocalError ''pb'') s
              | Some u \<Rightarrow>
                  (case running_loss s of
                     None \<Rightarrow> raise (UnboundLocalError ''running_loss'') s
                   | Some r \<Rightarrow> emit (ProgressBarUpdate r) s))"
  by (simp add: stops_def quiet_frame_def raise_def)

lemma keeps_update_running_loss:
  "keeps quiet_frame
     (\<lambda>s. case loss_tensor s of
             None \<Rightarrow> raise (UnboundLocalError ''loss'') s
           | Some l \<Rightarrow>
               if world_size = 0 then raise ZeroDivisionError s
               else
                 (case running_loss_train s of
                    None \<Rightarrow> raise (UnboundLocalError ''running_loss_train'') s
                  | Some m \<Rightarrow>
                      (let (m', r) = running_mean_call m (l / real_of_int world_size)
                       in Inr (s\<lparr>running_loss_train := Some m', running_loss := Some r\<rparr>))))"
  by (simp add: keeps_def quiet_frame_def last_frame_def raise_def Let_def
           split: option.splits prod.splits)

lemma keeps_train_step_on_data:
  "keeps quiet_frame
     (\<lambda>s. case data s of
             None \<Rightarrow> raise (UnboundLocalError ''data'') s
           | Some d \<Rightarrow> train_step w a s)"
proof (rule keepsI)
  fix s
  assume q: "quiet_frame s"
  from keepsD [OF keeps_train_step q] q
  show "quiet_frame (last_frame (case data s of
             None \<Rightarrow> raise (UnboundLocalError ''data'') s
           | Some d \<Rightarrow> train_step w a s))"
    by (simp add: raise_def last_frame_def split: option.splits)
qed

lemma stops_step_after_folds: "stops (step_after_folds w a world_size)"
  unfolding step_after_folds_def
  by (intro stops_block_later stops_block_first stops_progress_bar keeps_compute_alpha
        keeps_train_step_on_data keeps_emit quiet_simps keeps_reduce_loss
        keeps_update_running_loss)

lemma stops_after_folds: "stops (after_folds w a rank world_size)"
  unfolding after_folds_def
  by (intro stops_block_first stops_step_after_folds)

lemma stops_train: "stops (train w a rank world_size)"
  unfolding train_def
  by (intro stops_block_later stops_block_first stops_after_folds keeps_intros quiet_simps
        keeps_fold_loop)

lemma quiet_initial_frame: "quiet_frame (initial_frame a)"
  by (simp add: quiet_frame_def initial_frame_def)

lemma run_train_stops:
  "\<exists>e s'. run_train w a rank world_size = Inl (e, s') \<and> quiet_frame s'"
  unfolding run_train_def by (rule stopsD [OF stops_train quiet_initial_frame])

lemma patch_dump_not_training: "patch_dump_event e \<Longrightarrow> \<not> training_event e"
  by (cases e) (simp_all add: patch_dump_event_def training_event_def)

lemma no_training_among_patch_dumps:
  "list_all patch_dump_event evs \<Longrightarrow> \<not> list_ex training_event evs"
  by (induction evs) (simp_all add: patch_dump_not_training)

lemma sample_run_rank0_events:
  "events (run_train sample_world sample_args 0 1) =
     [InitProcessGroup 0 1, CudaSetDevice 0, ConsolePrint ''Starting training'',
      GetTrainingDataset [''images/p3'', ''images/p4''] [''labels/p3'', ''labels/p4''] None 1,
      GetValidationDataset [''images/p1'', ''images/p2''] [''labels/p1'', ''labels/p2''],
      GetLoss ''dice_ce'', GetModel, ConvertSyncBatchnorm, ModelTo 0, WrapDDP False,
      GetOptimizer, GetLrSchedule, NewSummaryWriter 0,
      ModelTrain,
      TrainLoaderNext, PrintShape (2, 1), WriteImagePatch 0 0 0, WriteLabelPatch 0 0,
      TrainLoaderNext, PrintShape (2, 1), WriteImagePatch 1 1 0, WriteLabelPatch 1 1,
      ModelTrain,
      TrainLoaderNext, PrintShape (2, 1), WriteImagePatch 2 0 0, WriteLabelPatch 2 0,
      TrainLoaderNext, PrintShape (2, 1), WriteImagePatch 3 1 0, WriteLabelPatch 3 1,
      SetTrace,
      AlphaScheduleCall 1, ZeroGrad, Forward, Backward, OptimizerStep, LrSchedulerStep,
      Reduce 1]"
  by code_simp

lemma sample_run_rank0_raised:
  "raised (run_train sample_world sample_args 0 1) = Some (UnboundLocalError ''pb'')"
  by code_simp

lemma sample_run_rank1_events:
  "events (run_train sample_world sample_args 1 2) =
     [InitProcessGroup 1 2, CudaSetDevice 1,
      GetTrainingDataset [''images/p3'', ''images/p4''] [''labels/p3'', ''labels/p4''] None 0,
      GetValidationDataset [''images/p1'', ''images/p2''] [''labels/p1'', ''labels/p2''],
      GetLoss ''dice_ce'', GetModel, ConvertSyncBatchnorm, ModelTo 1, WrapDDP False,
      GetOptimizer, GetLrSchedule,
      ModelTrain, ModelTrain, SetTrace,
      AlphaScheduleCall 1]"
  by code_simp

lemma sample_run_rank1_raised:
  "raised (run_train sample_world sample_args 1 2) = Some (UnboundLocalError ''data'')"
  by code_simp

lemma run_train_quiet:
  "list_all quiet (events (run_train w a rank world_size))
   \<and> raised (run_train w a rank world_size) \<noteq> None"
proof -
  from run_train_stops [of w a rank world_size] obtain e s' where
    "run_train w a rank world_size = Inl (e, s')" "quiet_frame s'" by blast
  then show ?thesis by (simp add: events_def raised_def quiet_frame_def)
qed

text \<open>
  Claim C1 says that on every rank each of the configured steps of each epoch runs the
  training sequence (batch, alpha, loss, backward, optimizer step, schedule step,
  reduction).  In the code the epoch loop emits on no rank any event of a training step.
  In the sample world (two epochs of two steps) rank 0 runs one training step in all,
  after the last fold, and then raises \<^verbatim>\<open>UnboundLocalError\<close> for \<^verbatim>\<open>pb\<close> (line 789); rank 1
  of two runs none and raises \<^verbatim>\<open>UnboundLocalError\<close> for \<^verbatim>\<open>data\<close> (line 770).
\<close>

theorem epoch_loop_runs_no_training_step:
  "list_all patch_dump_event (emitted s (fold_epochs w a rank s))
   \<and> \<not> list_ex training_event (emitted s (fold_epochs w a rank s))
   \<and> length (filter training_event (events (run_train sample_world sample_args 0 1))) = 6
   \<and> count_list (events (run_train sample_world sample_args 0 1)) OptimizerStep = 1
   \<and> raised (run_train sample_world sample_args 0 1) = Some (UnboundLocalError ''pb'')
   \<and> \<not> list_ex training_event (events (run_train sample_world sample_args 1 2))
   \<and> raised (run_train sample_world sample_args 1 2) = Some (UnboundLocalError ''data'')"
proof -
  have a: "list_all patch_dump_event (emitted s (fold_epochs w a rank s))"
    by (rule fold_epochs_patch_dump_events)
  have b: "\<not> list_ex training_event (emitted s (fold_epochs w a rank s))"
    by (rule no_training_among_patch_dumps [OF a])
  have c: "length (filter training_event (events (run_train sample_world sample_args 0 1))) = 6"
    by (simp add: sample_run_rank0_events training_event_def)
  have d: "count_list (events (run_train sample_world sample_args 0 1)) OptimizerStep = 1"
    by (simp add: sample_run_rank0_events)
  have e: "\<not> list_ex training_event (events (run_train sample_world sample_args 1 2))"
    by (simp add: sample_run_rank1_events training_event_def)
  from a b c d e sample_run_rank0_raised sample_run_rank1_raised show ?thesis by simp
qed

text \<open>
  Claim C6 says that after each epoch's validation rank 0 compares the validation mean
  with the best value so far and writes a checkpoint when it is strictly lower.  In the
  code the comparison (lines 849-873) stands after the fold loop, behind line 789, which
  always raises: no run of \<^verbatim>\<open>train\<close> ever writes a checkpoint, every run ends in an
  exception, and in the sample world rank 0 never pulls a validation batch.
\<close>

theorem no_checkpoint_is_written:
  "TorchSave f \<notin> set (events (run_train w a rank world_size))
   \<and> raised (run_train w a rank world_size) \<noteq> None
   \<and> raised (run_train sample_world sample_args 0 1) = Some (UnboundLocalError ''pb'')
   \<and> count_list (events (run_train sample_world sample_args 0 1)) ValidationLoaderNext = 0"
proof -
  from run_train_quiet [of w a rank world_size]
  have q: "list_all quiet (events (run_train w a rank world_size))"
    and r: "raised (run_train w a rank world_size) \<noteq> None" by simp_all
  have "TorchSave f \<notin> set (events (run_train w a rank world_size))"
  proof
    assume "TorchSave f \<in> set (events (run_train w a rank world_size))"
    with q have "quiet (TorchSave f)" by (simp add: list_all_iff)
    then show False by (simp add: quiet_simps)
  qed
  moreover have "count_list (events (run_train sample_world sample_args 0 1)) ValidationLoaderNext = 0"
    by (simp add: sample_run_rank0_events)
  ultimately show ?thesis using r sample_run_rank0_raised by simp
qed

text \<open>
  Claim C7 says that in every epoch a barrier follows the training loop and another
  follows validation.  In the code both \<^verbatim>\<open>dist.barrier()\<close> calls (lines 816 and 912) stand
  after the fold loop, behind line 789: no run of \<^verbatim>\<open>train\<close> ever reaches a barrier.  Rank 1
  of two in the sample world passes both epochs and the trap and raises at line 770.
\<close>

theorem no_barrier_is_reached:
  "Barrier \<notin> set (events (run_train w a rank world_size))
   \<and> events (run_train sample_world sample_args 1 2) =
       [InitProcessGroup 1 2, CudaSetDevice 1,
        GetTrainingDataset [''images/p3'', ''images/p4''] [''labels/p3'', ''labels/p4''] None 0,
        GetValidationDataset [''images/p1'', ''images/p2''] [''labels/p1'', ''labels/p2''],
        GetLoss ''dice_ce'', GetModel, ConvertSyncBatchnorm, ModelTo 1, WrapDDP False,
        GetOptimizer, GetLrSchedule,
        ModelTrain, ModelTrain, SetTrace,
        AlphaScheduleCall 1]
   \<and> raised (run_train sample_world sample_args 1 2) = Some (UnboundLocalError ''data'')"
proof -
  from run_train_quiet [of w a rank world_size]
  have q: "list_all quiet (events (run_train w a rank world_size))" by simp
  have "Barrier \<notin> set (events (run_train w a rank world_size))"
  proof
    assume "Barrier \<in> set (events (run_train w a rank world_size))"
    with q have "quiet Barrier" by (simp add: list_all_iff)
    then show False by (simp add: quiet_simps)
  qed
  with sample_run_rank1_events sample_run_rank1_raised show ?thesis by simp
qed

end
